theory Spec2Isabelle
  imports Main
begin

section \<open>Text: Go strings as sequences of code points\<close>

text \<open>
  A Go \<^verbatim>\<open>string\<close> is a byte sequence; every loop of \<^verbatim>\<open>matcher.go\<close> reads it
  with \<^verbatim>\<open>for _, r := range text\<close>, that is, rune by rune. The texts come out of the
  document service as valid UTF-8, so a text is modelled as the list of its code points.
  The three byte-level operations of \<^verbatim>\<open>generateLineKey\<close> (\<^verbatim>\<open>text[firstEnglishIndex:]\<close>,
  \<^verbatim>\<open>key[1] == '.'\<close>, \<^verbatim>\<open>key[2:]\<close>) cut at rune boundaries: the index comes from
  \<^verbatim>\<open>range\<close>, and the first rune of \<^verbatim>\<open>key\<close> is an ASCII letter (one byte), so byte 1
  is the period exactly when the second rune is.
\<close>

type_synonym rune = nat
type_synonym gostring = "rune list"

text \<open>An ASCII literal as a text.\<close>

definition runes :: "string \<Rightarrow> gostring" where
  "runes s = map of_char s"

subsection \<open>What the Go standard library contributes\<close>

text \<open>
  \<^verbatim>\<open>unicode.IsSpace\<close>: in Latin-1 the runes \<^verbatim>\<open>\t \n \v \f \r\<close>, space, U+0085 and
  U+00A0; above Latin-1 the \<^verbatim>\<open>White_Space\<close> table (U+1680, U+2000..U+200A, U+2028,
  U+2029, U+202F, U+205F, U+3000).
\<close>

definition unicode_IsSpace :: "rune \<Rightarrow> bool" where
  "unicode_IsSpace r =
     (if r \<le> 0xFF
      then r = 0x09 \<or> r = 0x0A \<or> r = 0x0B \<or> r = 0x0C \<or> r = 0x0D \<or> r = 0x20 \<or> r = 0x85 \<or> r = 0xA0
      else r = 0x1680 \<or> (0x2000 \<le> r \<and> r \<le> 0x200A) \<or> r = 0x2028 \<or> r = 0x2029
           \<or> r = 0x202F \<or> r = 0x205F \<or> r = 0x3000)"

text \<open>\<^verbatim>\<open>strings.TrimSpace\<close>: the text without its leading and trailing white space.\<close>

definition strings_TrimSpace :: "gostring \<Rightarrow> gostring" where
  "strings_TrimSpace s = rev (dropWhile unicode_IsSpace (rev (dropWhile unicode_IsSpace s)))"

text \<open>
  \<^verbatim>\<open>unicode.ToLower\<close>: an ASCII rune is lowered by the comparison
  \<^verbatim>\<open>'A' <= r && r <= 'Z'\<close>; any other rune is looked up in the table
  \<^verbatim>\<open>unicode.CaseRanges\<close>. The table is not part of the repository, so the lookup is the
  parameter \<open>tbl\<close> of everything that lowers a text.
  \<^verbatim>\<open>strings.ToLower\<close> maps \<^verbatim>\<open>unicode.ToLower\<close> over the runes.
\<close>

definition unicode_ToLower :: "(rune \<Rightarrow> rune) \<Rightarrow> rune \<Rightarrow> rune" where
  "unicode_ToLower tbl r =
     (if r \<le> 0x7F then (if 0x41 \<le> r \<and> r \<le> 0x5A then r + 0x20 else r) else tbl r)"

definition strings_ToLower :: "(rune \<Rightarrow> rune) \<Rightarrow> gostring \<Rightarrow> gostring" where
  "strings_ToLower tbl s = map (unicode_ToLower tbl) s"

text \<open>
  The two Latin-1 entries of \<^verbatim>\<open>unicode.CaseRanges\<close> that change a rune on lowering,
  \<^verbatim>\<open>{0x00C0, 0x00D6, d{0, 32, 0}}\<close> and \<^verbatim>\<open>{0x00D8, 0x00DE, d{0, 32, 0}}\<close>; runes
  outside them are left as they are, as the library leaves every rune without case (the
  CJK ideographs among them). It stands for the table wherever a run is evaluated on
  concrete lines, all of which are ASCII, Latin-1 or CJK.
\<close>

definition caseRangesLatin1 :: "rune \<Rightarrow> rune" where
  "caseRangesLatin1 r =
     (if (0xC0 \<le> r \<and> r \<le> 0xD6) \<or> (0xD8 \<le> r \<and> r \<le> 0xDE) then r + 32 else r)"

section \<open>The matcher (matcher.go)\<close>

datatype LineType = LineTypeEnglish | LineTypeChinese | LineTypeMixed | LineTypeEmpty

record MatchDecision =
  ShouldAddEmptyLine :: bool
  ShouldFollowPrevStyle :: bool
  ShouldAdvanceSource :: bool
  LineType :: LineType
  LinesMatch :: bool

text \<open>\<^verbatim>\<open>containsChinese\<close>: the loop returns at the first rune in U+4E00..U+9FFF.\<close>

fun containsChinese :: "gostring \<Rightarrow> bool" where
  "containsChinese [] = False"
| "containsChinese (r # rs) = (if 0x4E00 \<le> r \<and> r \<le> 0x9FFF then True else containsChinese rs)"

definition isEnglishLetter :: "rune \<Rightarrow> bool" where
  "isEnglishLetter r = ((0x41 \<le> r \<and> r \<le> 0x5A) \<or> (0x61 \<le> r \<and> r \<le> 0x7A))"

text \<open>
  The first loop of \<^verbatim>\<open>generateLineKey\<close>: \<open>firstEnglishIndex\<close> is \<open>-1\<close> until a letter
  is met; \<open>i\<close> is the position of the rune being read.
\<close>

fun findFirstEnglish :: "nat \<Rightarrow> gostring \<Rightarrow> int" where
  "findFirstEnglish i [] = -1"
| "findFirstEnglish i (r # rs) = (if isEnglishLetter r then int i else findFirstEnglish (Suc i) rs)"

definition isKeptRune :: "rune \<Rightarrow> bool" where
  "isKeptRune r = (r \<noteq> 0x20 \<and> r \<noteq> 0x09 \<and> r \<noteq> 0x0A \<and> r \<noteq> 0x0D)"

definition generateLineKey :: "(rune \<Rightarrow> rune) \<Rightarrow> gostring \<Rightarrow> gostring" where
  "generateLineKey tbl text =
     (let firstEnglishIndex = findFirstEnglish 0 text in
      if firstEnglishIndex = -1 then []
      else
        let englishPortion = drop (nat firstEnglishIndex) text;
            result = filter isKeptRune englishPortion;
            key = strings_ToLower tbl result
        in if length key \<ge> 2 \<and> key ! 1 = 0x2E then drop 2 key else key)"

definition classifyLineType :: "(rune \<Rightarrow> rune) \<Rightarrow> gostring \<Rightarrow> LineType" where
  "classifyLineType tbl text =
     (let trimmed = strings_TrimSpace text in
      if length trimmed = 0 then LineTypeEmpty
      else
        let hasChinese = containsChinese text;
            hasEnglish = (generateLineKey tbl text \<noteq> [])
        in if hasChinese \<and> hasEnglish then LineTypeMixed
           else if hasChinese then LineTypeChinese
           else if hasEnglish then LineTypeEnglish
           else LineTypeEmpty)"

definition shouldAddEmptyLine :: "(rune \<Rightarrow> rune) \<Rightarrow> gostring \<Rightarrow> gostring \<Rightarrow> bool" where
  "shouldAddEmptyLine tbl lineText previousLineText =
     (let lineType = classifyLineType tbl lineText in
      if lineType = LineTypeChinese \<or> lineType = LineTypeMixed then True else False)"

definition shouldFollowPreviousLineStyle :: "(rune \<Rightarrow> rune) \<Rightarrow> gostring \<Rightarrow> 'f option \<Rightarrow> bool" where
  "shouldFollowPreviousLineStyle tbl lineText previousFeatures =
     (let lineType = classifyLineType tbl lineText in
      if (lineType = LineTypeChinese \<or> lineType = LineTypeMixed) \<and> previousFeatures \<noteq> None
      then True else False)"

definition shouldAdvanceSourceCursor :: "bool \<Rightarrow> bool" where
  "shouldAdvanceSourceCursor lastProcessedWasChinese = lastProcessedWasChinese"

definition linesMatch :: "gostring \<Rightarrow> gostring \<Rightarrow> bool" where
  "linesMatch sourceKey targetKey = (sourceKey = targetKey)"

definition AnalyzeLineMatch ::
  "(rune \<Rightarrow> rune) \<Rightarrow> gostring \<Rightarrow> gostring \<Rightarrow> 'f option \<Rightarrow> bool \<Rightarrow> MatchDecision" where
  "AnalyzeLineMatch tbl sourceText targetText previousFeatures lastProcessedWasChinese =
     (let targetLineType = classifyLineType tbl targetText;
          sourceKey = generateLineKey tbl sourceText;
          targetKey = generateLineKey tbl targetText
      in \<lparr> ShouldAddEmptyLine = shouldAddEmptyLine tbl targetText [],
           ShouldFollowPrevStyle = shouldFollowPreviousLineStyle tbl targetText previousFeatures,
           ShouldAdvanceSource = shouldAdvanceSourceCursor lastProcessedWasChinese,
           LineType = targetLineType,
           LinesMatch = linesMatch sourceKey targetKey \<rparr>)"

section \<open>Documents and the line source (main.go)\<close>

text \<open>
  The document types belong to the client library of the document service. The model
  keeps the fields the synchronization reads: the structural elements of the body, each
  with its index range and an optional paragraph, the paragraph's elements with their
  optional text runs, and a run's content. Paragraph style, bullet and text style are
  only copied from a line to its features, so they stay abstract.
\<close>

typedecl ParagraphStyle
typedecl Bullet
typedecl TextStyle

record TextRun =
  Content :: gostring
  TextStyle :: "TextStyle option"

record ParagraphElement =
  TextRun :: "TextRun option"

record Paragraph =
  Elements :: "ParagraphElement list"
  ParagraphStyle :: "ParagraphStyle option"
  Bullet :: "Bullet option"

record StructuralElement =
  StartIndex :: int
  EndIndex :: int
  Paragraph :: "Paragraph option"

text \<open>\<open>Body = None\<close> is a document whose \<^verbatim>\<open>Body\<close> is nil; otherwise the body's content.\<close>

record Document =
  Body :: "StructuralElement list option"

text \<open>
  \<^verbatim>\<open>LineFeatures\<close>: the text, the number of leading tabs, and the style attributes.
  The attributes (alignment, indents, font, colour, bullet) are copies of fields of the
  paragraph style, the bullet and the text style of the run; the record carries those
  three instead of the copies.
\<close>

record LineFeatures =
  Text :: gostring
  LeadingTabs :: nat
  FromParagraphStyle :: "ParagraphStyle option"
  FromBullet :: "Bullet option"
  FromTextStyle :: "TextStyle option"

text \<open>
  \<^verbatim>\<open>LineInfo\<close> without its field \<^verbatim>\<open>Features\<close> and \<^verbatim>\<open>DocumentCursor\<close> without its
  field \<^verbatim>\<open>CurrentLine\<close>: the program never assigns or reads either.
\<close>

record LineInfo =
  Text :: gostring
  Element :: StructuralElement
  TextRun :: "TextRun option"

record DocumentCursor =
  Document :: Document
  ElementIndex :: nat
  LineIndex :: nat

record SyncError =
  SourceLine :: nat
  TargetLine :: nat
  SourceKey :: gostring
  TargetKey :: gostring
  Message :: string

text \<open>The two errors of \<^verbatim>\<open>getNextNonEmptyLine\<close>.\<close>

datatype LineError = EmptyDocument | EndOfDocument

text \<open>
  What \<^verbatim>\<open>synchronizeDocuments\<close> can return from its two loops: a \<^verbatim>\<open>*SyncError\<close>, or
  one of the \<^verbatim>\<open>fmt.Errorf\<close> errors, named after their messages.
\<close>

datatype RunError =
    Sync SyncError
  | ErrorReadingFirstSourceLine LineError
  | ReachedEndOfSourceWhileFastForwarding nat
  | ErrorReadingSourceWhileFastForwarding LineError
  | ReachedEndOfTargetWhileFastForwarding nat
  | ErrorReadingTargetWhileFastForwarding LineError
  | ErrorReadingSourceDocument LineError
  | ErrorReadingTargetDocument LineError

subsection \<open>getNextNonEmptyLine\<close>

text \<open>\<^verbatim>\<open>strings.Split(s, "\n")\<close>.\<close>

fun splitLines :: "gostring \<Rightarrow> gostring list" where
  "splitLines [] = [[]]"
| "splitLines (r # rs) =
     (if r = 0x0A then [] # splitLines rs
      else (case splitLines rs of [] \<Rightarrow> [[r]] | l # ls \<Rightarrow> (r # l) # ls))"

text \<open>
  The loop over the elements of one paragraph: it appends the content of every run that
  is not blank, remembers the first such run, and counts the tabs of the blank runs
  before it.
\<close>

fun collectRuns ::
  "ParagraphElement list \<Rightarrow> gostring \<Rightarrow> TextRun option \<Rightarrow> nat \<Rightarrow> gostring \<times> TextRun option \<times> nat" where
  "collectRuns [] textContent firstTextRun tabsFromSkippedRuns =
     (textContent, firstTextRun, tabsFromSkippedRuns)"
| "collectRuns (paragraphElement # rest) textContent firstTextRun tabsFromSkippedRuns =
     (case ParagraphElement.TextRun paragraphElement of
        None \<Rightarrow> collectRuns rest textContent firstTextRun tabsFromSkippedRuns
      | Some run \<Rightarrow>
          let content = Content run in
          if strings_TrimSpace content = []
          then collectRuns rest textContent firstTextRun
                 (if firstTextRun = None then tabsFromSkippedRuns + count_list content 0x09
                  else tabsFromSkippedRuns)
          else collectRuns rest (textContent @ content)
                 (if firstTextRun = None then Some run else firstTextRun)
                 tabsFromSkippedRuns)"

text \<open>
  The text of a structural element and its first text run (with the skipped tabs put in
  front of its content); \<open>None\<close> when the element has no paragraph or the paragraph no
  elements.
\<close>

definition paragraphText :: "StructuralElement \<Rightarrow> (gostring \<times> TextRun option) option" where
  "paragraphText element =
     (case Paragraph element of
        None \<Rightarrow> None
      | Some paragraph \<Rightarrow>
          if length (Elements paragraph) > 0 then
            (case collectRuns (Elements paragraph) [] None 0 of
               (textContent, firstTextRun, tabsFromSkippedRuns) \<Rightarrow>
                 Some (strings_TrimSpace textContent,
                       (case firstTextRun of
                          None \<Rightarrow> None
                        | Some run \<Rightarrow>
                            if tabsFromSkippedRuns > 0
                            then Some (run\<lparr>Content := replicate tabsFromSkippedRuns 0x09 @ Content run\<rparr>)
                            else Some run)))
          else None)"

text \<open>
  The inner loop \<^verbatim>\<open>for cursor.LineIndex < len(lines)\<close>: the first line at or after
  \<open>lineIndex\<close> that is not blank, trimmed, with its index.
\<close>

function scanLines :: "gostring list \<Rightarrow> nat \<Rightarrow> (gostring \<times> nat) option" where
  "scanLines lines lineIndex =
     (if lineIndex < length lines then
        (let line = strings_TrimSpace (lines ! lineIndex) in
         if line \<noteq> [] then Some (line, lineIndex) else scanLines lines (Suc lineIndex))
      else None)"
  by pat_completeness auto
termination
  by (relation "measure (\<lambda>(lines, lineIndex). length lines - lineIndex)") auto

text \<open>
  The outer loop \<^verbatim>\<open>for cursor.ElementIndex < len(content)\<close>, with the cursor's two
  indices as arguments. It returns the line, if there is one, and the indices the cursor
  is left with.
\<close>

function nextLineFrom :: "StructuralElement list \<Rightarrow> nat \<Rightarrow> nat \<Rightarrow> LineInfo option \<times> nat \<times> nat" where
  "nextLineFrom content elementIndex lineIndex =
     (if elementIndex < length content then
        (let element = content ! elementIndex in
         case paragraphText element of
           None \<Rightarrow> nextLineFrom content (Suc elementIndex) lineIndex
         | Some (text, firstTextRun) \<Rightarrow>
             if text \<noteq> [] then
               (let lines = splitLines text in
                case scanLines lines lineIndex of
                  Some (line, i) \<Rightarrow>
                    (Some \<lparr> LineInfo.Text = line, Element = element, TextRun = firstTextRun \<rparr>,
                     if Suc i \<ge> length lines then (Suc elementIndex, 0) else (elementIndex, Suc i))
                | None \<Rightarrow> nextLineFrom content (Suc elementIndex) 0)
             else nextLineFrom content (Suc elementIndex) lineIndex)
      else (None, elementIndex, lineIndex))"
  by pat_completeness auto
termination
  by (relation "measure (\<lambda>(content, elementIndex, lineIndex). length content - elementIndex)") auto

definition getNextNonEmptyLine :: "DocumentCursor \<Rightarrow> (LineError + LineInfo) \<times> DocumentCursor" where
  "getNextNonEmptyLine cursor =
     (case Body (Document cursor) of
        None \<Rightarrow> (Inl EmptyDocument, cursor)
      | Some content \<Rightarrow>
          if length content = 0 then (Inl EmptyDocument, cursor)
          else
            (case nextLineFrom content (ElementIndex cursor) (LineIndex cursor) of
               (Some lineInfo, elementIndex, lineIndex) \<Rightarrow>
                 (Inr lineInfo, cursor\<lparr>ElementIndex := elementIndex, LineIndex := lineIndex\<rparr>)
             | (None, elementIndex, lineIndex) \<Rightarrow>
                 (Inl EndOfDocument, cursor\<lparr>ElementIndex := elementIndex, LineIndex := lineIndex\<rparr>)))"

subsection \<open>extractLineFeatures\<close>

definition extractLineFeatures :: "StructuralElement \<Rightarrow> TextRun option \<Rightarrow> gostring \<Rightarrow> LineFeatures" where
  "extractLineFeatures element textRun text =
     \<lparr> LineFeatures.Text = text,
       LeadingTabs = (case textRun of
                        None \<Rightarrow> 0
                      | Some run \<Rightarrow> length (takeWhile (\<lambda>char. char = 0x09) (Content run))),
       FromParagraphStyle = (case Paragraph element of
                               None \<Rightarrow> None
                             | Some paragraph \<Rightarrow> ParagraphStyle paragraph),
       FromBullet = (case Paragraph element of
                       None \<Rightarrow> None
                     | Some paragraph \<Rightarrow>
                         if ParagraphStyle paragraph \<noteq> None then Bullet paragraph else None),
       FromTextStyle = (case textRun of None \<Rightarrow> None | Some run \<Rightarrow> TextStyle run) \<rparr>"

section \<open>The synchronization driver (main.go, synchronizeDocuments)\<close>

text \<open>
  A call of \<^verbatim>\<open>applyFormattingToRange\<close>: the range and the features it is asked to stamp
  on it. The call talks to the document service and its failure is only printed, so a run
  is modelled with the list of the calls it made, in order.
\<close>

record FormatCall =
  RangeStart :: int
  RangeEnd :: int
  Features :: LineFeatures

text \<open>
  The local variables of \<^verbatim>\<open>synchronizeDocuments\<close>, and the calls made so far. The
  variable \<^verbatim>\<open>sourceLineInfo\<close> is nil only after a failed read of the source, and is no
  longer read then; the model keeps the last line.
\<close>

record SyncState =
  sourceCursor :: DocumentCursor
  targetCursor :: DocumentCursor
  sourceLineNum :: nat
  targetLineNum :: nat
  previousFeatures :: "LineFeatures option"
  lastProcessedWasChinese :: bool
  tabsToAddMap :: "nat \<rightharpoonup> nat"
  sourceLineInfo :: LineInfo
  sourceKey :: gostring
  sourceFeatures :: LineFeatures
  formatCalls :: "FormatCall list"

text \<open>How one pass through a loop body ends.\<close>

datatype Flow = Continue SyncState | Break SyncState | Return RunError

subsection \<open>The fast-forward loop\<close>

text \<open>The body of \<^verbatim>\<open>for loopID := 1; loopID < startLoop; loopID++\<close>, in three parts.\<close>

definition fastForwardAdvance :: "(rune \<Rightarrow> rune) \<Rightarrow> SyncState \<Rightarrow> RunError + SyncState" where
  "fastForwardAdvance tbl s =
     (if shouldAdvanceSourceCursor (lastProcessedWasChinese s) then
        (case getNextNonEmptyLine (sourceCursor s) of
           (Inl err, cursor) \<Rightarrow>
             if err = EndOfDocument then Inl (ReachedEndOfSourceWhileFastForwarding (sourceLineNum s))
             else Inl (ErrorReadingSourceWhileFastForwarding err)
         | (Inr lineInfo, cursor) \<Rightarrow>
             Inr (s\<lparr> sourceCursor := cursor,
                     sourceLineInfo := lineInfo,
                     sourceLineNum := sourceLineNum s + 1,
                     sourceKey := generateLineKey tbl (LineInfo.Text lineInfo),
                     sourceFeatures := extractLineFeatures (Element lineInfo) (LineInfo.TextRun lineInfo)
                                         (LineInfo.Text lineInfo) \<rparr>))
      else Inr s)"

definition fastForwardLine :: "(rune \<Rightarrow> rune) \<Rightarrow> SyncState \<Rightarrow> LineInfo \<Rightarrow> RunError + SyncState" where
  "fastForwardLine tbl s targetLineInfo =
     (let decision = AnalyzeLineMatch tbl (LineInfo.Text (sourceLineInfo s)) (LineInfo.Text targetLineInfo)
                       (previousFeatures s) (lastProcessedWasChinese s)
      in if LineType decision = LineTypeChinese \<or> LineType decision = LineTypeMixed
         then Inr (s\<lparr> lastProcessedWasChinese := True \<rparr>)
         else
           let targetKey = generateLineKey tbl (LineInfo.Text targetLineInfo) in
           if \<not> LinesMatch decision
           then Inl (Sync \<lparr> SourceLine = sourceLineNum s, TargetLine = targetLineNum s,
                            SourceKey = sourceKey s, TargetKey = targetKey,
                            Message = ''Line content mismatch'' \<rparr>)
           else Inr (s\<lparr> previousFeatures := Some (sourceFeatures s),
                         lastProcessedWasChinese := False \<rparr>))"

definition fastForwardBody :: "(rune \<Rightarrow> rune) \<Rightarrow> SyncState \<Rightarrow> RunError + SyncState" where
  "fastForwardBody tbl s =
     (case fastForwardAdvance tbl s of
        Inl e \<Rightarrow> Inl e
      | Inr s1 \<Rightarrow>
          (case getNextNonEmptyLine (targetCursor s1) of
             (Inl err, cursor) \<Rightarrow>
               if err = EndOfDocument then Inl (ReachedEndOfTargetWhileFastForwarding (targetLineNum s1))
               else Inl (ErrorReadingTargetWhileFastForwarding err)
           | (Inr targetLineInfo, cursor) \<Rightarrow>
               fastForwardLine tbl
                 (s1\<lparr> targetCursor := cursor, targetLineNum := targetLineNum s1 + 1 \<rparr>)
                 targetLineInfo))"

function fastForward :: "(rune \<Rightarrow> rune) \<Rightarrow> nat \<Rightarrow> nat \<Rightarrow> SyncState \<Rightarrow> RunError + SyncState" where
  "fastForward tbl startLoop loopID s =
     (if loopID < startLoop then
        (case fastForwardBody tbl s of
           Inl e \<Rightarrow> Inl e
         | Inr s' \<Rightarrow> fastForward tbl startLoop (Suc loopID) s')
      else Inr s)"
  by pat_completeness auto
termination
  by (relation "measure (\<lambda>(tbl, startLoop, loopID, s). startLoop - loopID)") auto

subsection \<open>The main loop\<close>

text \<open>The body of \<^verbatim>\<open>for loopID := startLoop; ; loopID++\<close>, in three parts.\<close>

definition mainLoopAdvance :: "(rune \<Rightarrow> rune) \<Rightarrow> SyncState \<Rightarrow> Flow" where
  "mainLoopAdvance tbl s =
     (if shouldAdvanceSourceCursor (lastProcessedWasChinese s) then
        (case getNextNonEmptyLine (sourceCursor s) of
           (Inl err, cursor) \<Rightarrow>
             if err = EndOfDocument then Break (s\<lparr> sourceCursor := cursor \<rparr>)
             else Return (ErrorReadingSourceDocument err)
         | (Inr lineInfo, cursor) \<Rightarrow>
             Continue (s\<lparr> sourceCursor := cursor,
                          sourceLineInfo := lineInfo,
                          sourceLineNum := sourceLineNum s + 1,
                          sourceKey := generateLineKey tbl (LineInfo.Text lineInfo),
                          sourceFeatures := extractLineFeatures (Element lineInfo) (LineInfo.TextRun lineInfo)
                                              (LineInfo.Text lineInfo) \<rparr>))
      else Continue s)"

definition mainLoopLine :: "(rune \<Rightarrow> rune) \<Rightarrow> nat \<Rightarrow> SyncState \<Rightarrow> LineInfo \<Rightarrow> Flow" where
  "mainLoopLine tbl loopID s targetLineInfo =
     (let decision = AnalyzeLineMatch tbl (LineInfo.Text (sourceLineInfo s)) (LineInfo.Text targetLineInfo)
                       (previousFeatures s) (lastProcessedWasChinese s)
      in if LineType decision = LineTypeChinese \<or> LineType decision = LineTypeMixed
         then
           let s1 = (case previousFeatures s of
                       None \<Rightarrow> s
                     | Some previous \<Rightarrow>
                         if LeadingTabs previous > 0
                         then s\<lparr> tabsToAddMap := (tabsToAddMap s)(loopID \<mapsto> LeadingTabs previous) \<rparr>
                         else s);
               s2 = (case previousFeatures s of
                       None \<Rightarrow> s1
                     | Some previous \<Rightarrow>
                         if ShouldFollowPrevStyle decision
                         then s1\<lparr> formatCalls := formatCalls s1 @
                                  [\<lparr> RangeStart = StartIndex (Element targetLineInfo),
                                     RangeEnd = EndIndex (Element targetLineInfo),
                                     Features = previous \<rparr>] \<rparr>
                         else s1)
           in Continue (s2\<lparr> lastProcessedWasChinese := True \<rparr>)
         else
           let targetKey = generateLineKey tbl (LineInfo.Text targetLineInfo) in
           if \<not> LinesMatch decision
           then Return (Sync \<lparr> SourceLine = sourceLineNum s, TargetLine = targetLineNum s,
                               SourceKey = sourceKey s, TargetKey = targetKey,
                               Message = ''Line content mismatch'' \<rparr>)
           else
             let s1 = (if LeadingTabs (sourceFeatures s) > 0
                       then s\<lparr> tabsToAddMap := (tabsToAddMap s)(loopID \<mapsto> LeadingTabs (sourceFeatures s)) \<rparr>
                       else s);
                 s2 = s1\<lparr> formatCalls := formatCalls s1 @
                            [\<lparr> RangeStart = StartIndex (Element targetLineInfo),
                               RangeEnd = EndIndex (Element targetLineInfo),
                               Features = sourceFeatures s \<rparr>] \<rparr>
             in Continue (s2\<lparr> previousFeatures := Some (sourceFeatures s),
                              lastProcessedWasChinese := False \<rparr>))"

definition mainLoopBody :: "(rune \<Rightarrow> rune) \<Rightarrow> nat \<Rightarrow> SyncState \<Rightarrow> Flow" where
  "mainLoopBody tbl loopID s =
     (case mainLoopAdvance tbl s of
        Return e \<Rightarrow> Return e
      | Break s1 \<Rightarrow> Break s1
      | Continue s1 \<Rightarrow>
          (case getNextNonEmptyLine (targetCursor s1) of
             (Inl err, cursor) \<Rightarrow>
               if err = EndOfDocument then Break (s1\<lparr> targetCursor := cursor \<rparr>)
               else Return (ErrorReadingTargetDocument err)
           | (Inr targetLineInfo, cursor) \<Rightarrow>
               mainLoopLine tbl loopID
                 (s1\<lparr> targetCursor := cursor, targetLineNum := targetLineNum s1 + 1 \<rparr>)
                 targetLineInfo))"

text \<open>
  What is left of a cursor's document: the elements from the cursor on, and the lines of
  the cursor's element from the cursor on. Every line that \<^verbatim>\<open>getNextNonEmptyLine\<close>
  returns makes the pair smaller, which is why the main loop ends.
\<close>

definition cursorContent :: "DocumentCursor \<Rightarrow> StructuralElement list" where
  "cursorContent cursor = (case Body (Document cursor) of None \<Rightarrow> [] | Some content \<Rightarrow> content)"

definition elementsLeft :: "DocumentCursor \<Rightarrow> nat" where
  "elementsLeft cursor = length (cursorContent cursor) - ElementIndex cursor"

definition linesLeft :: "DocumentCursor \<Rightarrow> nat" where
  "linesLeft cursor =
     (case paragraphText (cursorContent cursor ! ElementIndex cursor) of
        None \<Rightarrow> 0
      | Some (text, firstTextRun) \<Rightarrow> length (splitLines text) - LineIndex cursor)"

subsection \<open>Why the main loop ends\<close>

declare scanLines.simps [simp del] nextLineFrom.simps [simp del] fastForward.simps [simp del]

lemma scanLines_found:
  "scanLines lines lineIndex = Some (line, i) \<Longrightarrow>
     lineIndex \<le> i \<and> i < length lines \<and> line = strings_TrimSpace (lines ! i) \<and> line \<noteq> []"
proof (induction lines lineIndex rule: scanLines.induct)
  case (1 lines lineIndex)
  show ?case
  proof (cases "lineIndex < length lines")
    case False
    with "1.prems" show ?thesis by (simp add: scanLines.simps)
  next
    case True
    show ?thesis
    proof (cases "strings_TrimSpace (lines ! lineIndex) \<noteq> []")
      case True
      with \<open>lineIndex < length lines\<close> "1.prems" show ?thesis
        by (auto simp: scanLines.simps [of lines lineIndex] Let_def)
    next
      case False
      with \<open>lineIndex < length lines\<close> "1.prems" have "scanLines lines (Suc lineIndex) = Some (line, i)"
        by (simp add: scanLines.simps [of lines lineIndex] Let_def)
      with "1.IH" [OF \<open>lineIndex < length lines\<close> refl] False show ?thesis by auto
    qed
  qed
qed

lemma nextLineFrom_progress:
  "nextLineFrom content elementIndex lineIndex = (Some lineInfo, elementIndex', lineIndex') \<Longrightarrow>
     elementIndex < length content \<and>
     ((elementIndex < elementIndex' \<and> elementIndex' \<le> length content) \<or>
      (elementIndex' = elementIndex \<and> lineIndex < lineIndex' \<and>
       (\<exists>text firstTextRun. paragraphText (content ! elementIndex) = Some (text, firstTextRun) \<and>
          lineIndex' < length (splitLines text))))"
proof (induction content elementIndex lineIndex rule: nextLineFrom.induct)
  case (1 content elementIndex lineIndex)
  show ?case
  proof (cases "elementIndex < length content")
    case False
    with "1.prems" show ?thesis by (simp add: nextLineFrom.simps)
  next
    case inside: True
    show ?thesis
    proof (cases "paragraphText (content ! elementIndex)")
      case None
      with inside "1.prems" have "nextLineFrom content (Suc elementIndex) lineIndex = (Some lineInfo, elementIndex', lineIndex')"
        by (simp add: nextLineFrom.simps [of content elementIndex] Let_def)
      from "1.IH"(1) [OF inside refl None this] inside show ?thesis by auto
    next
      case (Some p)
      obtain ptext firstTextRun where p: "p = (ptext, firstTextRun)" by (cases p)
      show ?thesis
      proof (cases "ptext \<noteq> []")
        case False
        with inside Some p "1.prems" have "nextLineFrom content (Suc elementIndex) lineIndex = (Some lineInfo, elementIndex', lineIndex')"
          by (simp add: nextLineFrom.simps [of content elementIndex] Let_def)
        from "1.IH"(3) [OF inside refl Some [unfolded p] refl _ this] False inside show ?thesis by auto
      next
        case True
        show ?thesis
        proof (cases "scanLines (splitLines ptext) lineIndex")
          case None
          with True inside Some p "1.prems" have "nextLineFrom content (Suc elementIndex) 0 = (Some lineInfo, elementIndex', lineIndex')"
            by (simp add: nextLineFrom.simps [of content elementIndex] Let_def)
          from "1.IH"(2) [OF inside refl Some [unfolded p] refl True refl None this] inside show ?thesis by auto
        next
          case (Some q)
          obtain line i where q: "q = (line, i)" by (cases q)
          from scanLines_found [OF Some [unfolded q]] have b: "lineIndex \<le> i" "i < length (splitLines ptext)" by auto
          from True inside \<open>paragraphText (content ! elementIndex) = Some p\<close> p Some q "1.prems"
          have "(elementIndex', lineIndex') = (if Suc i \<ge> length (splitLines ptext) then (Suc elementIndex, 0) else (elementIndex, Suc i))"
            by (simp add: nextLineFrom.simps [of content elementIndex] Let_def)
          with b inside \<open>paragraphText (content ! elementIndex) = Some p\<close> p show ?thesis
            by (auto split: if_splits)
        qed
      qed
    qed
  qed
qed


lemma getNextNonEmptyLine_progress:
  assumes "getNextNonEmptyLine cursor = (Inr lineInfo, cursor')"
  shows "elementsLeft cursor' < elementsLeft cursor \<or>
         (elementsLeft cursor' = elementsLeft cursor \<and> linesLeft cursor' < linesLeft cursor)"
proof -
  from assms obtain content elementIndex lineIndex where
    body: "Body (Document cursor) = Some content" and
    nxt: "nextLineFrom content (ElementIndex cursor) (LineIndex cursor) = (Some lineInfo, elementIndex, lineIndex)" and
    c': "cursor' = cursor\<lparr>ElementIndex := elementIndex, LineIndex := lineIndex\<rparr>"
    by (auto simp: getNextNonEmptyLine_def split: option.splits if_splits prod.splits)
  from nextLineFrom_progress [OF nxt] body c' show ?thesis
    by (auto simp: elementsLeft_def linesLeft_def cursorContent_def)
qed

lemma mainLoopAdvance_targetCursor:
  "mainLoopAdvance tbl s = Continue s1 \<Longrightarrow> targetCursor s1 = targetCursor s"
  by (auto simp: mainLoopAdvance_def split: if_splits prod.splits sum.splits)

lemma mainLoopLine_targetCursor:
  "mainLoopLine tbl loopID s targetLineInfo = Continue s' \<Longrightarrow> targetCursor s' = targetCursor s"
  by (auto simp: mainLoopLine_def Let_def split: if_splits option.splits)

lemma mainLoopBody_progress:
  assumes "mainLoopBody tbl loopID s = Continue s'"
  shows "elementsLeft (targetCursor s') < elementsLeft (targetCursor s) \<or>
         (elementsLeft (targetCursor s') = elementsLeft (targetCursor s) \<and>
          linesLeft (targetCursor s') < linesLeft (targetCursor s))"
proof -
  from assms obtain s1 targetLineInfo cursor where
    adv: "mainLoopAdvance tbl s = Continue s1" and
    pull: "getNextNonEmptyLine (targetCursor s1) = (Inr targetLineInfo, cursor)" and
    line: "mainLoopLine tbl loopID (s1\<lparr> targetCursor := cursor, targetLineNum := targetLineNum s1 + 1 \<rparr>) targetLineInfo = Continue s'"
    by (auto simp: mainLoopBody_def split: Flow.splits prod.splits sum.splits if_splits)
  from mainLoopLine_targetCursor [OF line] have "targetCursor s' = cursor" by simp
  with getNextNonEmptyLine_progress [OF pull] mainLoopAdvance_targetCursor [OF adv] show ?thesis by simp
qed

function mainLoop :: "(rune \<Rightarrow> rune) \<Rightarrow> nat \<Rightarrow> SyncState \<Rightarrow> RunError + SyncState" where
  "mainLoop tbl loopID s =
     (case mainLoopBody tbl loopID s of
        Return e \<Rightarrow> Inl e
      | Break s' \<Rightarrow> Inr s'
      | Continue s' \<Rightarrow> mainLoop tbl (Suc loopID) s')"
  by pat_completeness auto
termination
proof (relation "measures [\<lambda>(tbl, loopID, s). elementsLeft (targetCursor s),
                           \<lambda>(tbl, loopID, s). linesLeft (targetCursor s)]", goal_cases)
  case 1
  show ?case by simp
next
  case (2 tbl loopID s s')
  from mainLoopBody_progress [OF 2] show ?case by auto
qed

declare mainLoop.simps [simp del]


subsection \<open>synchronizeDocuments\<close>

text \<open>
  The start of \<^verbatim>\<open>synchronizeDocuments\<close>: the variables are initialised and the first
  source line is read.
\<close>

definition startState :: "(rune \<Rightarrow> rune) \<Rightarrow> DocumentCursor \<Rightarrow> DocumentCursor \<Rightarrow> RunError + SyncState" where
  "startState tbl sourceCursor0 targetCursor0 =
     (case getNextNonEmptyLine sourceCursor0 of
        (Inl err, cursor) \<Rightarrow> Inl (ErrorReadingFirstSourceLine err)
      | (Inr lineInfo, cursor) \<Rightarrow>
          Inr \<lparr> sourceCursor = cursor,
                targetCursor = targetCursor0,
                sourceLineNum = 1,
                targetLineNum = 0,
                previousFeatures = None,
                lastProcessedWasChinese = False,
                tabsToAddMap = Map.empty,
                sourceLineInfo = lineInfo,
                sourceKey = generateLineKey tbl (LineInfo.Text lineInfo),
                sourceFeatures = extractLineFeatures (Element lineInfo) (LineInfo.TextRun lineInfo)
                                   (LineInfo.Text lineInfo),
                formatCalls = [] \<rparr>)"

text \<open>
  \<^verbatim>\<open>synchronizeDocuments\<close> up to the end of its main loop: the start, the fast-forward
  loop when \<open>startLoop > 1\<close>, and the main loop. \<open>Inr\<close> is the state in which the main
  loop was left by one of its two \<^verbatim>\<open>break\<close>s. What follows in the source (printing the
  tab table and, when the table is not empty, fetching the target document again to
  insert the tabs) reads none of the cursors, line numbers or flags again and builds no
  \<^verbatim>\<open>SyncError\<close>; with an empty table the function returns nil there.
\<close>

definition synchronizeDocuments ::
  "(rune \<Rightarrow> rune) \<Rightarrow> DocumentCursor \<Rightarrow> DocumentCursor \<Rightarrow> nat \<Rightarrow> RunError + SyncState" where
  "synchronizeDocuments tbl sourceCursor0 targetCursor0 startLoop =
     (case startState tbl sourceCursor0 targetCursor0 of
        Inl e \<Rightarrow> Inl e
      | Inr s \<Rightarrow>
          if startLoop > 1 then
            (case fastForward tbl startLoop 1 s of
               Inl e \<Rightarrow> Inl e
             | Inr s' \<Rightarrow> mainLoop tbl startLoop s')
          else mainLoop tbl startLoop s)"

text \<open>\<^verbatim>\<open>processDualDocuments\<close>, from the two fetched documents on.\<close>

definition processDualDocuments ::
  "(rune \<Rightarrow> rune) \<Rightarrow> Document \<Rightarrow> Document \<Rightarrow> nat \<Rightarrow> RunError + SyncState" where
  "processDualDocuments tbl sourceDoc targetDoc startLoop =
     synchronizeDocuments tbl
       \<lparr> Document = sourceDoc, ElementIndex = 0, LineIndex = 0 \<rparr>
       \<lparr> Document = targetDoc, ElementIndex = 0, LineIndex = 0 \<rparr>
       startLoop"

text \<open>
  A document with one paragraph per line, each paragraph a single text run holding the
  line and its newline, with no style; the index ranges follow the lengths.
\<close>

fun paragraphsOfLines :: "int \<Rightarrow> gostring list \<Rightarrow> StructuralElement list" where
  "paragraphsOfLines start [] = []"
| "paragraphsOfLines start (line # rest) =
     \<lparr> StartIndex = start,
       EndIndex = start + int (length line) + 1,
       Paragraph = Some \<lparr> Elements = [\<lparr> ParagraphElement.TextRun =
                                          Some \<lparr> Content = line @ [0x0A], TextStyle = None \<rparr> \<rparr>],
                           ParagraphStyle = None,
                           Bullet = None \<rparr> \<rparr>
     # paragraphsOfLines (start + int (length line) + 1) rest"

definition documentOfLines :: "gostring list \<Rightarrow> Document" where
  "documentOfLines lines = \<lparr> Body = Some (paragraphsOfLines 1 lines) \<rparr>"

section \<open>The normalization as the specification words it\<close>

text \<open>
  The specification describes the key without the index arithmetic of the code: the text
  from its first ASCII letter on, without the four white-space characters, lower-cased,
  and without its first two characters when the second is a period. \<open>normalizeWith\<close>
  is that description for a given lower-casing of single characters;
  \<open>asciiLowercase\<close> lowers the ASCII letters and nothing else.
\<close>

definition asciiLowercase :: "rune \<Rightarrow> rune" where
  "asciiLowercase r = (if 0x41 \<le> r \<and> r \<le> 0x5A then r + 0x20 else r)"

definition normalizeWith :: "(rune \<Rightarrow> rune) \<Rightarrow> gostring \<Rightarrow> gostring" where
  "normalizeWith lower text =
     (if \<not> list_ex isEnglishLetter text then []
      else
        let k = map lower (filter isKeptRune (dropWhile (\<lambda>r. \<not> isEnglishLetter r) text))
        in if 2 \<le> length k \<and> k ! 1 = 0x2E then drop 2 k else k)"

text \<open>
  The part of a text that reaches its key: from the first ASCII letter on, without the
  four white-space characters.
\<close>

definition keyPart :: "gostring \<Rightarrow> gostring" where
  "keyPart t = filter isKeptRune (dropWhile (\<lambda>r. \<not> isEnglishLetter r) t)"

text \<open>
  Quotation marks: the two ASCII ones and the four curly ones. Two texts differ only in
  quotation marks when they are different and equal once their quotation marks are taken
  out.
\<close>

definition isQuotationMark :: "rune \<Rightarrow> bool" where
  "isQuotationMark r =
     (r = 0x22 \<or> r = 0x27 \<or> r = 0x2018 \<or> r = 0x2019 \<or> r = 0x201C \<or> r = 0x201D)"

definition differOnlyInQuotationMarks :: "gostring \<Rightarrow> gostring \<Rightarrow> bool" where
  "differOnlyInQuotationMarks t1 t2 =
     (t1 \<noteq> t2 \<and> filter (\<lambda>r. \<not> isQuotationMark r) t1 = filter (\<lambda>r. \<not> isQuotationMark r) t2)"

text \<open>
  What the quotation marks need from the case table: it has no entry for a quotation
  mark and maps nothing onto one. (The table of the library lists letters only.)
\<close>

definition keepsQuotationMarks :: "(rune \<Rightarrow> rune) \<Rightarrow> bool" where
  "keepsQuotationMarks tbl =
     (\<forall>r. 0x7F < r \<longrightarrow> isQuotationMark (tbl r) = isQuotationMark r \<and> (isQuotationMark r \<longrightarrow> tbl r = r))"

section \<open>Runs, iteration by iteration\<close>

text \<open>
  The iterations a run enters, as a relation on the loop (fast-forward or main), the loop
  counter and the state at the top of the loop body. A run with \<open>startLoop > 1\<close> enters the
  fast-forward loop at 1 and, after the last fast-forward iteration, the main loop at
  \<open>startLoop\<close>; a run with \<open>startLoop \<le> 1\<close> enters the main loop at once. An iteration is
  followed by the next one only when its body neither returns nor breaks.
\<close>

datatype Phase = FastForwarding | Synchronizing

inductive entersIteration ::
  "(rune \<Rightarrow> rune) \<Rightarrow> DocumentCursor \<Rightarrow> DocumentCursor \<Rightarrow> nat \<Rightarrow> Phase \<Rightarrow> nat \<Rightarrow> SyncState \<Rightarrow> bool"
  for tbl :: "rune \<Rightarrow> rune" and sourceCursor0 targetCursor0 :: DocumentCursor and startLoop :: nat
  where
    first_fast_forward:
      "startState tbl sourceCursor0 targetCursor0 = Inr s \<Longrightarrow> 1 < startLoop \<Longrightarrow>
       entersIteration tbl sourceCursor0 targetCursor0 startLoop FastForwarding 1 s"
  | first_main:
      "startState tbl sourceCursor0 targetCursor0 = Inr s \<Longrightarrow> \<not> 1 < startLoop \<Longrightarrow>
       entersIteration tbl sourceCursor0 targetCursor0 startLoop Synchronizing startLoop s"
  | next_fast_forward:
      "entersIteration tbl sourceCursor0 targetCursor0 startLoop FastForwarding loopID s \<Longrightarrow>
       fastForwardBody tbl s = Inr s' \<Longrightarrow> Suc loopID < startLoop \<Longrightarrow>
       entersIteration tbl sourceCursor0 targetCursor0 startLoop FastForwarding (Suc loopID) s'"
  | fast_forward_done:
      "entersIteration tbl sourceCursor0 targetCursor0 startLoop FastForwarding loopID s \<Longrightarrow>
       fastForwardBody tbl s = Inr s' \<Longrightarrow> \<not> Suc loopID < startLoop \<Longrightarrow>
       entersIteration tbl sourceCursor0 targetCursor0 startLoop Synchronizing startLoop s'"
  | next_main:
      "entersIteration tbl sourceCursor0 targetCursor0 startLoop Synchronizing loopID s \<Longrightarrow>
       mainLoopBody tbl loopID s = Continue s' \<Longrightarrow>
       entersIteration tbl sourceCursor0 targetCursor0 startLoop Synchronizing (Suc loopID) s'"

text \<open>The rest of a run from an iteration on.\<close>

fun restOfRun :: "(rune \<Rightarrow> rune) \<Rightarrow> nat \<Rightarrow> Phase \<Rightarrow> nat \<Rightarrow> SyncState \<Rightarrow> RunError + SyncState" where
  "restOfRun tbl startLoop FastForwarding loopID s =
     (case fastForward tbl startLoop loopID s of
        Inl e \<Rightarrow> Inl e
      | Inr s' \<Rightarrow> mainLoop tbl startLoop s')"
| "restOfRun tbl startLoop Synchronizing loopID s = mainLoop tbl loopID s"

text \<open>What one iteration does, for either loop.\<close>

fun iteration :: "(rune \<Rightarrow> rune) \<Rightarrow> Phase \<Rightarrow> nat \<Rightarrow> SyncState \<Rightarrow> Flow" where
  "iteration tbl FastForwarding loopID s =
     (case fastForwardBody tbl s of Inl e \<Rightarrow> Return e | Inr s' \<Rightarrow> Continue s')"
| "iteration tbl Synchronizing loopID s = mainLoopBody tbl loopID s"

text \<open>
  \<^verbatim>\<open>sourceKey\<close> is assigned wherever \<^verbatim>\<open>sourceLineInfo\<close> is: it is the key of the current
  source line in every state a run reaches (\<open>entered_keyInSync\<close> below).
\<close>

definition keyInSync :: "(rune \<Rightarrow> rune) \<Rightarrow> SyncState \<Rightarrow> bool" where
  "keyInSync tbl s = (sourceKey s = generateLineKey tbl (LineInfo.Text (sourceLineInfo s)))"

text \<open>The \<^verbatim>\<open>SyncError\<close> both loops build.\<close>

definition mismatch :: "SyncState \<Rightarrow> gostring \<Rightarrow> SyncError" where
  "mismatch s targetKey =
     \<lparr> SourceLine = sourceLineNum s, TargetLine = targetLineNum s, SourceKey = sourceKey s,
       TargetKey = targetKey, Message = ''Line content mismatch'' \<rparr>"

text \<open>The state a line is handled in: the target cursor moved on, the line counted.\<close>

definition withTargetLine :: "SyncState \<Rightarrow> DocumentCursor \<Rightarrow> SyncState" where
  "withTargetLine s cursor = s\<lparr> targetCursor := cursor, targetLineNum := targetLineNum s + 1 \<rparr>"

text \<open>
  The mismatch of claim C1, at the iteration that starts in state \<open>s\<close>: \<open>s1\<close> is the
  state once the source line of this iteration is in place (the loop's own advance step
  succeeded), \<open>t\<close> is the target line then read, it is neither Chinese nor Mixed, its key
  differs from the key of the current source line, and \<open>e\<close> carries the current source
  line number, the number of the target line, and the two keys.
\<close>

definition raisesAt ::
  "(rune \<Rightarrow> rune) \<Rightarrow> Phase \<Rightarrow> SyncState \<Rightarrow> SyncState \<Rightarrow> LineInfo \<Rightarrow> SyncError \<Rightarrow> bool" where
  "raisesAt tbl phase s s1 t e =
     ((case phase of
         FastForwarding \<Rightarrow> fastForwardAdvance tbl s = Inr s1
       | Synchronizing \<Rightarrow> mainLoopAdvance tbl s = Continue s1) \<and>
      fst (getNextNonEmptyLine (targetCursor s1)) = Inr t \<and>
      classifyLineType tbl (LineInfo.Text t) \<noteq> LineTypeChinese \<and>
      classifyLineType tbl (LineInfo.Text t) \<noteq> LineTypeMixed \<and>
      generateLineKey tbl (LineInfo.Text t) \<noteq> generateLineKey tbl (LineInfo.Text (sourceLineInfo s1)) \<and>
      e = \<lparr> SourceLine = sourceLineNum s1, TargetLine = targetLineNum s1 + 1,
            SourceKey = generateLineKey tbl (LineInfo.Text (sourceLineInfo s1)),
            TargetKey = generateLineKey tbl (LineInfo.Text t),
            Message = ''Line content mismatch'' \<rparr>)"

section \<open>The run that fast-forwarding is compared with\<close>

text \<open>
  The specification compares a fast-forwarded run with a run from iteration 1 that moves
  the cursors and checks for mismatches as usual but applies no formatting before
  iteration \<open>N\<close>. \<open>quietBody\<close> is the body of the main loop with its formatting taken
  back: the calls of \<^verbatim>\<open>applyFormattingToRange\<close> always, and with \<open>alsoTabs\<close> the entries
  it made in the tab table as well (the tabs are inserted after the loop, so both
  readings of "applies no formatting" are covered). \<open>referenceLoop\<close> is the main loop
  with \<open>quietBody\<close> in place of the body before iteration \<open>N\<close>.
\<close>

definition quietBody :: "bool \<Rightarrow> (rune \<Rightarrow> rune) \<Rightarrow> nat \<Rightarrow> SyncState \<Rightarrow> Flow" where
  "quietBody alsoTabs tbl loopID s =
     (case mainLoopBody tbl loopID s of
        Continue s' \<Rightarrow>
          Continue (s'\<lparr> formatCalls := formatCalls s,
                        tabsToAddMap := (if alsoTabs then tabsToAddMap s else tabsToAddMap s') \<rparr>)
      | Break s' \<Rightarrow> Break s'
      | Return e \<Rightarrow> Return e)"

definition referenceBody :: "bool \<Rightarrow> (rune \<Rightarrow> rune) \<Rightarrow> nat \<Rightarrow> nat \<Rightarrow> SyncState \<Rightarrow> Flow" where
  "referenceBody alsoTabs tbl N loopID s =
     (if loopID < N then quietBody alsoTabs tbl loopID s else mainLoopBody tbl loopID s)"

lemma referenceBody_progress:
  assumes "referenceBody alsoTabs tbl N loopID s = Continue s'"
  shows "elementsLeft (targetCursor s') < elementsLeft (targetCursor s) \<or>
         (elementsLeft (targetCursor s') = elementsLeft (targetCursor s) \<and>
          linesLeft (targetCursor s') < linesLeft (targetCursor s))"
proof (cases "loopID < N")
  case True
  with assms obtain s'' where b: "mainLoopBody tbl loopID s = Continue s''"
    and "targetCursor s' = targetCursor s''"
    by (auto simp: referenceBody_def quietBody_def split: Flow.splits)
  with mainLoopBody_progress [OF b] show ?thesis by simp
next
  case False
  with assms mainLoopBody_progress show ?thesis by (simp add: referenceBody_def)
qed

function referenceLoop :: "bool \<Rightarrow> (rune \<Rightarrow> rune) \<Rightarrow> nat \<Rightarrow> nat \<Rightarrow> SyncState \<Rightarrow> RunError + SyncState" where
  "referenceLoop alsoTabs tbl N loopID s =
     (case referenceBody alsoTabs tbl N loopID s of
        Return e \<Rightarrow> Inl e
      | Break s' \<Rightarrow> Inr s'
      | Continue s' \<Rightarrow> referenceLoop alsoTabs tbl N (Suc loopID) s')"
  by pat_completeness auto
termination
proof (relation "measures [\<lambda>(alsoTabs, tbl, N, loopID, s). elementsLeft (targetCursor s),
                           \<lambda>(alsoTabs, tbl, N, loopID, s). linesLeft (targetCursor s)]", goal_cases)
  case 1
  show ?case by simp
next
  case (2 alsoTabs tbl N loopID s s')
  from referenceBody_progress [OF 2] show ?case by auto
qed

declare referenceLoop.simps [simp del]

definition referenceRun ::
  "bool \<Rightarrow> (rune \<Rightarrow> rune) \<Rightarrow> DocumentCursor \<Rightarrow> DocumentCursor \<Rightarrow> nat \<Rightarrow> RunError + SyncState" where
  "referenceRun alsoTabs tbl sourceCursor0 targetCursor0 N =
     (case startState tbl sourceCursor0 targetCursor0 of
        Inl e \<Rightarrow> Inl e
      | Inr s \<Rightarrow> referenceLoop alsoTabs tbl N 1 s)"

text \<open>
  A run reaches iteration \<open>N\<close> when the first source line can be read and the iterations
  \<open>1..N-1\<close> of the main loop all go on to the next one; \<open>stateAtIteration\<close> is the state
  in which iteration \<open>N\<close> is then entered.
\<close>

function stateAtIteration :: "(rune \<Rightarrow> rune) \<Rightarrow> nat \<Rightarrow> nat \<Rightarrow> SyncState \<Rightarrow> SyncState option" where
  "stateAtIteration tbl N loopID s =
     (if loopID < N then
        (case mainLoopBody tbl loopID s of
           Continue s' \<Rightarrow> stateAtIteration tbl N (Suc loopID) s'
         | Break s' \<Rightarrow> None
         | Return e \<Rightarrow> None)
      else Some s)"
  by pat_completeness auto
termination
  by (relation "measure (\<lambda>(tbl, N, loopID, s). N - loopID)") auto

declare stateAtIteration.simps [simp del]

definition reachesIteration :: "(rune \<Rightarrow> rune) \<Rightarrow> DocumentCursor \<Rightarrow> DocumentCursor \<Rightarrow> nat \<Rightarrow> bool" where
  "reachesIteration tbl sourceCursor0 targetCursor0 N =
     (case startState tbl sourceCursor0 targetCursor0 of
        Inl e \<Rightarrow> False
      | Inr s \<Rightarrow> stateAtIteration tbl N 1 s \<noteq> None)"

text \<open>
  What claim C4 compares at the end of a run: the flag and the two line numbers. And a
  state without its formatting record (the tab table and the list of calls).
\<close>

record Observed =
  finalFlag :: bool
  finalSourceLine :: nat
  finalTargetLine :: nat

definition observed :: "SyncState \<Rightarrow> Observed" where
  "observed s = \<lparr> finalFlag = lastProcessedWasChinese s, finalSourceLine = sourceLineNum s,
                  finalTargetLine = targetLineNum s \<rparr>"

definition withoutFormatting :: "SyncState \<Rightarrow> SyncState" where
  "withoutFormatting s = s\<lparr> tabsToAddMap := Map.empty, formatCalls := [] \<rparr>"

fun flowWithoutFormatting :: "Flow \<Rightarrow> Flow" where
  "flowWithoutFormatting (Continue s) = Continue (withoutFormatting s)"
| "flowWithoutFormatting (Break s) = Break (withoutFormatting s)"
| "flowWithoutFormatting (Return e) = Return e"

section \<open>Example documents\<close>

text \<open>
  The lines of the examples of the specification and of the tests, and the cursor at the
  start of the document made of given lines (as \<^verbatim>\<open>processDualDocuments\<close> sets it up).
\<close>

definition cursorAtStart :: "gostring list \<Rightarrow> DocumentCursor" where
  "cursorAtStart lines = \<lparr> Document = documentOfLines lines, ElementIndex = 0, LineIndex = 0 \<rparr>"

definition titleLine :: gostring where
  "titleLine = runes ''Title: Jesus Christ, the Same''"

text \<open>The Chinese line of the specification's example run: U+8036 U+7A23 U+57FA U+7763.\<close>

definition chineseLine :: gostring where
  "chineseLine = [0x8036, 0x7A23, 0x57FA, 0x7763]"

definition quotedTitleLine :: gostring where
  "quotedTitleLine = runes ''Title: '' @ 0x22 # runes ''Jesus Christ, the Same'' @ [0x22]"

definition amenLine :: gostring where
  "amenLine = runes ''Amen''"

definition numberLine :: gostring where
  "numberLine = runes ''12:30 (3)''"

section \<open>Properties of the matcher\<close>

text \<open>
  C3. For every source text, target text, previous snapshot and flag, the decision's
  \<open>ShouldAdvanceSource\<close> is the flag that was passed in: it never depends on the two
  lines, their classification or their keys.
\<close>

theorem C3_advance_is_pass_through:
  "ShouldAdvanceSource (AnalyzeLineMatch tbl sourceText targetText previous flag) = flag"
  by (simp add: AnalyzeLineMatch_def shouldAdvanceSourceCursor_def Let_def)

subsection \<open>The key\<close>

lemma findFirstEnglish_none:
  "(findFirstEnglish i t = -1) = (\<forall>r\<in>set t. \<not> isEnglishLetter r)"
  by (induction t arbitrary: i) auto

lemma findFirstEnglish_index:
  "\<exists>r\<in>set t. isEnglishLetter r \<Longrightarrow>
     findFirstEnglish i t = int (i + length (takeWhile (\<lambda>r. \<not> isEnglishLetter r) t))"
proof (induction t arbitrary: i)
  case Nil
  then show ?case by simp
next
  case (Cons a t)
  show ?case
  proof (cases "isEnglishLetter a")
    case True
    then show ?thesis by simp
  next
    case False
    with Cons.prems have "\<exists>r\<in>set t. isEnglishLetter r" by auto
    from Cons.IH [OF this, of "Suc i"] False show ?thesis by simp
  qed
qed

lemma englishPortion_dropWhile:
  "\<exists>r\<in>set t. isEnglishLetter r \<Longrightarrow>
     drop (nat (findFirstEnglish 0 t)) t = dropWhile (\<lambda>r. \<not> isEnglishLetter r) t"
  by (simp add: findFirstEnglish_index dropWhile_eq_drop)

lemma generateLineKey_normalizeWith:
  "generateLineKey tbl t = normalizeWith (unicode_ToLower tbl) t"
proof (cases "\<exists>r\<in>set t. isEnglishLetter r")
  case True
  then have "findFirstEnglish 0 t \<noteq> -1" using findFirstEnglish_none [of 0 t] by auto
  with True show ?thesis
    by (simp add: generateLineKey_def normalizeWith_def englishPortion_dropWhile strings_ToLower_def
        list_ex_iff Let_def)
next
  case False
  then have "findFirstEnglish 0 t = -1" using findFirstEnglish_none [of 0 t] by auto
  with False show ?thesis
    by (simp add: generateLineKey_def normalizeWith_def list_ex_iff)
qed

lemma containsChinese_iff:
  "containsChinese t = (\<exists>r\<in>set t. 0x4E00 \<le> r \<and> r \<le> 0x9FFF)"
  by (induction t) auto

lemma TrimSpace_eq_Nil:
  "(strings_TrimSpace s = []) = (\<forall>r\<in>set s. unicode_IsSpace r)"
proof -
  have "(dropWhile unicode_IsSpace (rev (dropWhile unicode_IsSpace s)) = []) =
        (\<forall>r\<in>set (dropWhile unicode_IsSpace s). unicode_IsSpace r)"
    by (simp add: dropWhile_eq_Nil_conv)
  also have "\<dots> = (\<forall>r\<in>set s. unicode_IsSpace r)"
  proof
    assume a: "\<forall>r\<in>set (dropWhile unicode_IsSpace s). unicode_IsSpace r"
    show "\<forall>r\<in>set s. unicode_IsSpace r"
    proof (cases "dropWhile unicode_IsSpace s")
      case Nil
      then show ?thesis by (simp add: dropWhile_eq_Nil_conv)
    next
      case (Cons x xs)
      then have "\<not> unicode_IsSpace x" using hd_dropWhile [of unicode_IsSpace s] by auto
      moreover have "x \<in> set (dropWhile unicode_IsSpace s)" using Cons by simp
      ultimately show ?thesis using a by blast
    qed
  next
    assume "\<forall>r\<in>set s. unicode_IsSpace r"
    then show "\<forall>r\<in>set (dropWhile unicode_IsSpace s). unicode_IsSpace r"
      using set_dropWhileD by fastforce
  qed
  finally show ?thesis by (simp add: strings_TrimSpace_def)
qed

lemma no_letter_key_empty:
  "\<forall>r\<in>set t. \<not> isEnglishLetter r \<Longrightarrow> generateLineKey tbl t = []"
  by (simp add: generateLineKey_normalizeWith normalizeWith_def list_ex_iff)

lemma classifyLineType_cases:
  "classifyLineType tbl t =
     (if strings_TrimSpace t = [] then LineTypeEmpty
      else if (\<exists>r\<in>set t. 0x4E00 \<le> r \<and> r \<le> 0x9FFF) \<and> generateLineKey tbl t \<noteq> [] then LineTypeMixed
      else if (\<exists>r\<in>set t. 0x4E00 \<le> r \<and> r \<le> 0x9FFF) then LineTypeChinese
      else if generateLineKey tbl t \<noteq> [] then LineTypeEnglish
      else LineTypeEmpty)"
  by (simp add: classifyLineType_def containsChinese_iff Let_def)

lemma chinese_not_blank:
  assumes "\<exists>r\<in>set t. 0x4E00 \<le> r \<and> r \<le> 0x9FFF"
  shows "strings_TrimSpace t \<noteq> []"
proof -
  from assms obtain r where "r \<in> set t" "0x4E00 \<le> r" "r \<le> 0x9FFF" by blast
  then have "r \<in> set t" "\<not> unicode_IsSpace r" by (auto simp: unicode_IsSpace_def)
  then show ?thesis by (auto simp: TrimSpace_eq_Nil)
qed



lemma classify_secondary_iff:
  "(classifyLineType tbl t = LineTypeChinese \<or> classifyLineType tbl t = LineTypeMixed) =
     (\<exists>r\<in>set t. 0x4E00 \<le> r \<and> r \<le> 0x9FFF)"
  using chinese_not_blank [of t] by (auto simp: classifyLineType_cases)



lemma unicode_ToLower_ascii: "r \<le> 0x7F \<Longrightarrow> unicode_ToLower tbl r = asciiLowercase r"
  by (simp add: unicode_ToLower_def asciiLowercase_def)

lemma normalizeWith_cong:
  "\<forall>r\<in>set t. f r = g r \<Longrightarrow> normalizeWith f t = normalizeWith g t"
proof -
  assume a: "\<forall>r\<in>set t. f r = g r"
  have "set (filter isKeptRune (dropWhile (\<lambda>r. \<not> isEnglishLetter r) t)) \<subseteq> set t"
    using set_dropWhileD by fastforce
  with a have "\<forall>r\<in>set (filter isKeptRune (dropWhile (\<lambda>r. \<not> isEnglishLetter r) t)). f r = g r"
    by blast
  then have "map f (filter isKeptRune (dropWhile (\<lambda>r. \<not> isEnglishLetter r) t)) =
             map g (filter isKeptRune (dropWhile (\<lambda>r. \<not> isEnglishLetter r) t))"
    by (simp only: map_eq_conv)
  then show ?thesis by (simp only: normalizeWith_def)
qed

text \<open>
  C6 (as amended). For every text, \<open>generateLineKey\<close> returns the empty key when the text
  has no ASCII letter; otherwise it returns the text from the first ASCII letter on, with
  space, tab, newline and carriage return removed and every character lower-cased by
  \<^verbatim>\<open>strings.ToLower\<close>, and then without its first two characters when the second is a
  period. \<^verbatim>\<open>strings.ToLower\<close> lowers the ASCII letters and leaves the other ASCII
  characters alone, but it also lowers the letters outside ASCII that the Unicode case
  table lists; on a text whose characters outside ASCII the table leaves alone, the key is
  the one obtained by lowering ASCII letters only. In particular the keys of
  "1. First Point" and "First Point" are both "firstpoint". (White space is the four
  characters the code tests for; other Unicode white space, such as U+00A0 or U+3000,
  stays in the key.)
\<close>

theorem C6_key_is_normalization:
  "generateLineKey tbl t =
     (if \<not> list_ex isEnglishLetter t then []
      else
        let k = map (unicode_ToLower tbl) (filter isKeptRune (dropWhile (\<lambda>r. \<not> isEnglishLetter r) t))
        in if 2 \<le> length k \<and> k ! 1 = 0x2E then drop 2 k else k)
   \<and> (\<forall>r \<le> 0x7F. unicode_ToLower tbl r = asciiLowercase r)
   \<and> ((\<forall>r\<in>set t. 0x7F < r \<longrightarrow> tbl r = r) \<longrightarrow> generateLineKey tbl t = normalizeWith asciiLowercase t)
   \<and> generateLineKey tbl (runes ''1. First Point'') = runes ''firstpoint''
   \<and> generateLineKey tbl (runes ''First Point'') = runes ''firstpoint''"
proof (intro conjI)
  show "generateLineKey tbl t =
     (if \<not> list_ex isEnglishLetter t then []
      else
        let k = map (unicode_ToLower tbl) (filter isKeptRune (dropWhile (\<lambda>r. \<not> isEnglishLetter r) t))
        in if 2 \<le> length k \<and> k ! 1 = 0x2E then drop 2 k else k)"
    by (simp add: generateLineKey_normalizeWith normalizeWith_def)
  show "\<forall>r \<le> 0x7F. unicode_ToLower tbl r = asciiLowercase r"
    by (simp add: unicode_ToLower_ascii)
  show "(\<forall>r\<in>set t. 0x7F < r \<longrightarrow> tbl r = r) \<longrightarrow> generateLineKey tbl t = normalizeWith asciiLowercase t"
  proof
    assume a: "\<forall>r\<in>set t. 0x7F < r \<longrightarrow> tbl r = r"
    have "\<forall>r\<in>set t. unicode_ToLower tbl r = asciiLowercase r"
    proof
      fix r assume "r \<in> set t"
      with a show "unicode_ToLower tbl r = asciiLowercase r"
        by (cases "r \<le> 0x7F") (auto simp: unicode_ToLower_def asciiLowercase_def)
    qed
    then show "generateLineKey tbl t = normalizeWith asciiLowercase t"
      by (simp add: generateLineKey_normalizeWith normalizeWith_cong)
  qed
  show "generateLineKey tbl (runes ''1. First Point'') = runes ''firstpoint''"
    by (simp add: generateLineKey_def runes_def isEnglishLetter_def isKeptRune_def
        strings_ToLower_def unicode_ToLower_def Let_def)
  show "generateLineKey tbl (runes ''First Point'') = runes ''firstpoint''"
    by (simp add: generateLineKey_def runes_def isEnglishLetter_def isKeptRune_def
        strings_ToLower_def unicode_ToLower_def Let_def)
qed

text \<open>
  The claim as first stated has only the ASCII letters lower-cased. On the text of the
  two characters U+0061 and U+00C9 (a, and E with an acute accent) the code returns
  U+0061, U+00E9 (the accented letter lowered), while lowering ASCII letters only leaves
  the text as it is.
\<close>

theorem C6_lowercasing_counterexample:
  "generateLineKey caseRangesLatin1 [0x61, 0xC9] = [0x61, 0xE9] \<and>
   normalizeWith asciiLowercase [0x61, 0xC9] = [0x61, 0xC9]"
  by (simp add: generateLineKey_def normalizeWith_def asciiLowercase_def isEnglishLetter_def isKeptRune_def
        strings_ToLower_def unicode_ToLower_def caseRangesLatin1_def Let_def)

theorem C6_key_is_normalization_witness:
  "unicode_ToLower caseRangesLatin1 0x41 = 0x61 \<and>
   generateLineKey caseRangesLatin1 (runes ''a. Point One'') = runes ''pointone'' \<and>
   normalizeWith asciiLowercase (runes ''a. Point One'') = runes ''pointone'' \<and>
   generateLineKey caseRangesLatin1 [0x9057, 0x4EA7] = []"
proof -
  have fixed: "\<forall>r\<in>set (runes ''a. Point One''). 0x7F < r \<longrightarrow> caseRangesLatin1 r = r"
    by (simp add: runes_def)
  have ev: "normalizeWith asciiLowercase (runes ''a. Point One'') = runes ''pointone''"
    by (simp add: normalizeWith_def asciiLowercase_def isEnglishLetter_def isKeptRune_def runes_def)
  have none: "\<not> list_ex isEnglishLetter [0x9057, 0x4EA7]"
    by (simp add: isEnglishLetter_def)
  note a = C6_key_is_normalization [of caseRangesLatin1 "runes ''a. Point One''"]
  note b = C6_key_is_normalization [of caseRangesLatin1 "[0x9057, 0x4EA7]"]
  from a [THEN conjunct2, THEN conjunct2, THEN conjunct1] fixed
  have "generateLineKey caseRangesLatin1 (runes ''a. Point One'') =
        normalizeWith asciiLowercase (runes ''a. Point One'')"
    by blast
  moreover from b [THEN conjunct1] none have "generateLineKey caseRangesLatin1 [0x9057, 0x4EA7] = []"
    by simp
  moreover from a [THEN conjunct2, THEN conjunct1] have "unicode_ToLower caseRangesLatin1 0x41 = asciiLowercase 0x41"
    by simp
  ultimately show ?thesis using ev by (simp add: asciiLowercase_def)
qed

subsection \<open>Classification and the decision\<close>

lemmas matcher_eval =
  classifyLineType_def strings_TrimSpace_def unicode_IsSpace_def generateLineKey_def runes_def
  isEnglishLetter_def isKeptRune_def strings_ToLower_def unicode_ToLower_def Let_def

text \<open>
  C5. For every text, the classification is Empty when the trimmed text is empty;
  otherwise it is Mixed when the text has a code point in U+4E00..U+9FFF and its key is
  not empty, Chinese when only the first holds, English when only the second holds, and
  Empty when neither holds. In particular a line with no ASCII letter and no code point
  of that range, such as a line of digits and punctuation, is Empty. The classification
  is a function of the text (and of the case table of the library) and of nothing else.
\<close>

theorem C5_classification:
  "classifyLineType tbl t =
     (if strings_TrimSpace t = [] then LineTypeEmpty
      else if (\<exists>r\<in>set t. 0x4E00 \<le> r \<and> r \<le> 0x9FFF) \<and> generateLineKey tbl t \<noteq> [] then LineTypeMixed
      else if (\<exists>r\<in>set t. 0x4E00 \<le> r \<and> r \<le> 0x9FFF) then LineTypeChinese
      else if generateLineKey tbl t \<noteq> [] then LineTypeEnglish
      else LineTypeEmpty)
   \<and> ((\<forall>r\<in>set t. \<not> isEnglishLetter r \<and> \<not> (0x4E00 \<le> r \<and> r \<le> 0x9FFF)) \<longrightarrow>
        classifyLineType tbl t = LineTypeEmpty)"
proof (intro conjI impI)
  show "classifyLineType tbl t =
     (if strings_TrimSpace t = [] then LineTypeEmpty
      else if (\<exists>r\<in>set t. 0x4E00 \<le> r \<and> r \<le> 0x9FFF) \<and> generateLineKey tbl t \<noteq> [] then LineTypeMixed
      else if (\<exists>r\<in>set t. 0x4E00 \<le> r \<and> r \<le> 0x9FFF) then LineTypeChinese
      else if generateLineKey tbl t \<noteq> [] then LineTypeEnglish
      else LineTypeEmpty)"
    by (rule classifyLineType_cases)
next
  assume a: "\<forall>r\<in>set t. \<not> isEnglishLetter r \<and> \<not> (0x4E00 \<le> r \<and> r \<le> 0x9FFF)"
  then have "generateLineKey tbl t = []" by (simp add: no_letter_key_empty)
  moreover from a have "\<not> (\<exists>r\<in>set t. 0x4E00 \<le> r \<and> r \<le> 0x9FFF)" by blast
  ultimately show "classifyLineType tbl t = LineTypeEmpty"
    by (auto simp: classifyLineType_cases)
qed

theorem C5_classification_witness:
  "classifyLineType caseRangesLatin1 (runes ''12:30 (3).'') = LineTypeEmpty \<and>
   classifyLineType caseRangesLatin1 (runes ''123. Title: Test'') = LineTypeEnglish \<and>
   classifyLineType caseRangesLatin1 [0x7267, 0x5E08, 0x20, 0x41, 0x6C, 0x61, 0x6E] = LineTypeMixed \<and>
   classifyLineType caseRangesLatin1 [0x9057, 0x4EA7] = LineTypeChinese"
proof -
  have digits: "\<forall>r\<in>set (runes ''12:30 (3).''). \<not> isEnglishLetter r \<and> \<not> (0x4E00 \<le> r \<and> r \<le> 0x9FFF)"
    by (simp add: runes_def isEnglishLetter_def)
  from C5_classification [of caseRangesLatin1 "runes ''12:30 (3).''", THEN conjunct2] digits
  have 1: "classifyLineType caseRangesLatin1 (runes ''12:30 (3).'') = LineTypeEmpty" by blast
  have 2: "classifyLineType caseRangesLatin1 (runes ''123. Title: Test'') = LineTypeEnglish"
    using C5_classification [of caseRangesLatin1 "runes ''123. Title: Test''", THEN conjunct1]
    by (simp add: matcher_eval)
  have 3: "classifyLineType caseRangesLatin1 [0x7267, 0x5E08, 0x20, 0x41, 0x6C, 0x61, 0x6E] = LineTypeMixed"
    by (simp add: matcher_eval)
  have 4: "classifyLineType caseRangesLatin1 [0x9057, 0x4EA7] = LineTypeChinese"
    by (simp add: matcher_eval)
  from 1 2 3 4 show ?thesis by blast
qed

text \<open>
  C8. For every source text, target text, previous snapshot and flag, the decision has
  \<open>LinesMatch\<close> true exactly when the two keys are equal, \<open>ShouldFollowPrevStyle\<close> true
  exactly when the target line is Chinese or Mixed and there is a previous snapshot, and
  \<open>ShouldAddEmptyLine\<close> true exactly when the target line is Chinese or Mixed. In
  particular a target line with a code point in U+4E00..U+9FFF and a previous snapshot
  gives \<open>ShouldFollowPrevStyle\<close> and \<open>ShouldAddEmptyLine\<close>, whatever the keys are.
\<close>

theorem C8_decision_fields:
  "LineType (AnalyzeLineMatch tbl sourceText targetText previous flag) = classifyLineType tbl targetText
   \<and> LinesMatch (AnalyzeLineMatch tbl sourceText targetText previous flag) =
       (generateLineKey tbl sourceText = generateLineKey tbl targetText)
   \<and> ShouldFollowPrevStyle (AnalyzeLineMatch tbl sourceText targetText previous flag) =
       ((classifyLineType tbl targetText = LineTypeChinese \<or> classifyLineType tbl targetText = LineTypeMixed)
        \<and> previous \<noteq> None)
   \<and> ShouldAddEmptyLine (AnalyzeLineMatch tbl sourceText targetText previous flag) =
       (classifyLineType tbl targetText = LineTypeChinese \<or> classifyLineType tbl targetText = LineTypeMixed)
   \<and> ((\<exists>r\<in>set targetText. 0x4E00 \<le> r \<and> r \<le> 0x9FFF) \<and> previous \<noteq> None \<longrightarrow>
        ShouldFollowPrevStyle (AnalyzeLineMatch tbl sourceText targetText previous flag) \<and>
        ShouldAddEmptyLine (AnalyzeLineMatch tbl sourceText targetText previous flag))"
  using classify_secondary_iff [of tbl targetText]
  by (auto simp: AnalyzeLineMatch_def shouldFollowPreviousLineStyle_def shouldAddEmptyLine_def
      linesMatch_def Let_def)

theorem C8_decision_fields_witness:
  "ShouldFollowPrevStyle (AnalyzeLineMatch caseRangesLatin1 (runes ''Pastor Alan Fong'')
      [0x7267, 0x5E08, 0x20, 0x41, 0x6C, 0x61, 0x6E] (Some (0::nat)) False) \<and>
   ShouldAddEmptyLine (AnalyzeLineMatch caseRangesLatin1 (runes ''Pastor Alan Fong'')
      [0x7267, 0x5E08, 0x20, 0x41, 0x6C, 0x61, 0x6E] (Some (0::nat)) False) \<and>
   generateLineKey caseRangesLatin1 (runes ''Pastor Alan Fong'') \<noteq>
     generateLineKey caseRangesLatin1 [0x7267, 0x5E08, 0x20, 0x41, 0x6C, 0x61, 0x6E]"
proof -
  have "\<exists>r\<in>set [0x7267, 0x5E08, 0x20, 0x41, 0x6C, 0x61, 0x6E :: nat]. 0x4E00 \<le> r \<and> r \<le> 0x9FFF"
    by simp
  with C8_decision_fields [of caseRangesLatin1 "runes ''Pastor Alan Fong''"
      "[0x7267, 0x5E08, 0x20, 0x41, 0x6C, 0x61, 0x6E]" "Some (0::nat)" False]
  have "ShouldFollowPrevStyle (AnalyzeLineMatch caseRangesLatin1 (runes ''Pastor Alan Fong'')
      [0x7267, 0x5E08, 0x20, 0x41, 0x6C, 0x61, 0x6E] (Some (0::nat)) False) \<and>
   ShouldAddEmptyLine (AnalyzeLineMatch caseRangesLatin1 (runes ''Pastor Alan Fong'')
      [0x7267, 0x5E08, 0x20, 0x41, 0x6C, 0x61, 0x6E] (Some (0::nat)) False)"
    by blast
  moreover have "generateLineKey caseRangesLatin1 (runes ''Pastor Alan Fong'') \<noteq>
     generateLineKey caseRangesLatin1 [0x7267, 0x5E08, 0x20, 0x41, 0x6C, 0x61, 0x6E]"
    by (simp add: matcher_eval)
  ultimately show ?thesis by blast
qed




subsection \<open>What changes a key and what does not\<close>

lemma dropWhile_filter_commute:
  "(\<And>x. \<not> Q x \<Longrightarrow> P x) \<Longrightarrow> dropWhile P (filter Q xs) = filter Q (dropWhile P xs)"
  by (induction xs) auto

lemma letter_is_kept: "isEnglishLetter r \<Longrightarrow> isKeptRune r"
  by (auto simp: isEnglishLetter_def isKeptRune_def)

lemma letter_not_quote: "isEnglishLetter r \<Longrightarrow> \<not> isQuotationMark r"
  by (auto simp: isEnglishLetter_def isQuotationMark_def)

lemma keyPart_filter_kept:
  "keyPart t = dropWhile (\<lambda>r. \<not> isEnglishLetter r) (filter isKeptRune t)"
  unfolding keyPart_def using letter_is_kept
  by (intro dropWhile_filter_commute [symmetric]) blast

lemma keyPart_Nil_iff: "(keyPart t = []) = (\<not> list_ex isEnglishLetter t)"
proof -
  have "(keyPart t = []) = (\<forall>r\<in>set (filter isKeptRune t). \<not> isEnglishLetter r)"
    by (simp only: keyPart_filter_kept dropWhile_eq_Nil_conv)
  also have "\<dots> = (\<forall>r\<in>set t. \<not> isEnglishLetter r)"
    using letter_is_kept by auto
  finally show ?thesis by (simp add: list_ex_iff)
qed

lemma generateLineKey_keyPart:
  "generateLineKey tbl t =
     (let k = map (unicode_ToLower tbl) (keyPart t)
      in if 2 \<le> length k \<and> k ! 1 = 0x2E then drop 2 k else k)"
proof (cases "list_ex isEnglishLetter t")
  case True
  then show ?thesis
    by (simp add: generateLineKey_normalizeWith normalizeWith_def keyPart_def)
next
  case False
  then have "keyPart t = []" by (simp add: keyPart_Nil_iff)
  with False show ?thesis
    by (simp add: generateLineKey_normalizeWith normalizeWith_def)
qed

lemma key_whitespace_invariant:
  assumes "\<forall>r\<in>set ws. \<not> isKeptRune r"
  shows "generateLineKey tbl (xs @ ws @ ys) = generateLineKey tbl (xs @ ys)"
proof -
  from assms have "filter isKeptRune ws = []" by (simp add: filter_empty_conv)
  then have "keyPart (xs @ ws @ ys) = keyPart (xs @ ys)"
    by (simp add: keyPart_filter_kept)
  then show ?thesis by (simp only: generateLineKey_keyPart)
qed

lemma asciiLowercase_letter: "isEnglishLetter (asciiLowercase r) = isEnglishLetter r"
  by (auto simp: asciiLowercase_def isEnglishLetter_def)

lemma asciiLowercase_kept: "isKeptRune (asciiLowercase r) = isKeptRune r"
  by (auto simp: asciiLowercase_def isKeptRune_def)

lemma ToLower_asciiLowercase: "unicode_ToLower tbl (asciiLowercase r) = unicode_ToLower tbl r"
  by (auto simp: asciiLowercase_def unicode_ToLower_def)

lemma keyPart_map_asciiLowercase:
  "keyPart (map asciiLowercase t) = map asciiLowercase (keyPart t)"
  by (simp add: keyPart_def dropWhile_map filter_map comp_def asciiLowercase_letter asciiLowercase_kept)

lemma key_of_lowercased:
  "generateLineKey tbl (map asciiLowercase t) = generateLineKey tbl t"
  by (simp add: generateLineKey_keyPart keyPart_map_asciiLowercase comp_def ToLower_asciiLowercase)

lemma key_case_invariant:
  assumes "map asciiLowercase t1 = map asciiLowercase t2"
  shows "generateLineKey tbl t1 = generateLineKey tbl t2"
proof -
  have "generateLineKey tbl t1 = generateLineKey tbl (map asciiLowercase t1)"
    by (simp only: key_of_lowercased)
  also have "\<dots> = generateLineKey tbl (map asciiLowercase t2)" by (simp only: assms)
  also have "\<dots> = generateLineKey tbl t2" by (simp only: key_of_lowercased)
  finally show ?thesis .
qed

lemma ToLower_quote:
  assumes "keepsQuotationMarks tbl"
  shows "isQuotationMark (unicode_ToLower tbl r) = isQuotationMark r"
    and "isQuotationMark r \<Longrightarrow> unicode_ToLower tbl r = r"
proof -
  show "isQuotationMark (unicode_ToLower tbl r) = isQuotationMark r"
  proof (cases "r \<le> 0x7F")
    case True
    then show ?thesis by (auto simp: unicode_ToLower_def isQuotationMark_def)
  next
    case False
    with assms have "isQuotationMark (tbl r) = isQuotationMark r"
      by (simp add: keepsQuotationMarks_def)
    with False show ?thesis by (simp add: unicode_ToLower_def)
  qed
  show "unicode_ToLower tbl r = r" if q: "isQuotationMark r"
  proof (cases "r \<le> 0x7F")
    case True
    with q show ?thesis by (auto simp: unicode_ToLower_def isQuotationMark_def)
  next
    case False
    with assms q have "tbl r = r" by (simp add: keepsQuotationMarks_def)
    with False show ?thesis by (simp add: unicode_ToLower_def)
  qed
qed

lemma keyPart_without_quotes:
  "filter (\<lambda>r. \<not> isQuotationMark r) (keyPart t) = keyPart (filter (\<lambda>r. \<not> isQuotationMark r) t)"
proof -
  have "dropWhile (\<lambda>r. \<not> isEnglishLetter r) (filter (\<lambda>r. \<not> isQuotationMark r) t) =
        filter (\<lambda>r. \<not> isQuotationMark r) (dropWhile (\<lambda>r. \<not> isEnglishLetter r) t)"
    using letter_not_quote by (intro dropWhile_filter_commute) blast
  then show ?thesis
    by (simp add: keyPart_def) (metis filter_filter conj_commute)
qed

lemma keyPart_starts_with_letter:
  "keyPart t = c # rest \<Longrightarrow> isEnglishLetter c"
proof -
  assume a: "keyPart t = c # rest"
  then have "dropWhile (\<lambda>r. \<not> isEnglishLetter r) (filter isKeptRune t) \<noteq> []"
    by (simp add: keyPart_filter_kept)
  from hd_dropWhile [OF this] a show ?thesis by (simp add: keyPart_filter_kept)
qed

text \<open>Lowering is injective on lists that agree once the quotation marks are taken out.\<close>

lemma lowered_equal_same_rest:
  assumes k: "keepsQuotationMarks tbl"
  shows "length xs = length ys \<Longrightarrow>
         map (unicode_ToLower tbl) xs = map (unicode_ToLower tbl) ys \<Longrightarrow>
         filter (\<lambda>r. \<not> isQuotationMark r) xs = filter (\<lambda>r. \<not> isQuotationMark r) ys \<Longrightarrow> xs = ys"
proof (induction xs ys rule: list_induct2)
  case Nil
  then show ?case by simp
next
  case (Cons x xs y ys)
  from Cons.prems(1) have h: "unicode_ToLower tbl x = unicode_ToLower tbl y"
    and t: "map (unicode_ToLower tbl) xs = map (unicode_ToLower tbl) ys" by auto
  from h ToLower_quote(1) [OF k, of x] ToLower_quote(1) [OF k, of y]
  have q: "isQuotationMark x = isQuotationMark y" by simp
  show ?case
  proof (cases "isQuotationMark x")
    case True
    with q h ToLower_quote(2) [OF k] have "x = y" by metis
    moreover from True q Cons.prems(2) have "filter (\<lambda>r. \<not> isQuotationMark r) xs = filter (\<lambda>r. \<not> isQuotationMark r) ys"
      by simp
    ultimately show ?thesis using Cons.IH [OF t] by simp
  next
    case False
    with q Cons.prems(2) have "x = y" "filter (\<lambda>r. \<not> isQuotationMark r) xs = filter (\<lambda>r. \<not> isQuotationMark r) ys"
      by auto
    then show ?thesis using Cons.IH [OF t] by simp
  qed
qed

lemma lowered_equal_same_count:
  assumes k: "keepsQuotationMarks tbl"
    and m: "map (unicode_ToLower tbl) xs = map (unicode_ToLower tbl) ys"
  shows "length (filter (\<lambda>r. \<not> isQuotationMark r) xs) = length (filter (\<lambda>r. \<not> isQuotationMark r) ys)"
proof -
  have "\<And>zs. length (filter (\<lambda>r. \<not> isQuotationMark r) zs) =
             length (filter (\<lambda>r. \<not> isQuotationMark r) (map (unicode_ToLower tbl) zs))"
    by (simp add: filter_map comp_def ToLower_quote(1) [OF k])
  with m show ?thesis by metis
qed

lemma period_not_quote: "\<not> isQuotationMark 0x2E"
  by (simp add: isQuotationMark_def)

text \<open>The shape of a key part whose lowered form loses its first two characters.\<close>

lemma dotted_shape:
  assumes k: "keepsQuotationMarks tbl"
    and d: "2 \<le> length (map (unicode_ToLower tbl) (keyPart t))"
           "map (unicode_ToLower tbl) (keyPart t) ! 1 = 0x2E"
  obtains c p rest where "keyPart t = c # p # rest" "\<not> isQuotationMark c" "\<not> isQuotationMark p"
    "unicode_ToLower tbl p = 0x2E"
proof -
  from d(1) obtain c p rest where s: "keyPart t = c # p # rest"
    by (cases "keyPart t"; cases "tl (keyPart t)") auto
  with d(2) have p: "unicode_ToLower tbl p = 0x2E" by simp
  with ToLower_quote(1) [OF k, of p] period_not_quote have "\<not> isQuotationMark p" by simp
  moreover from keyPart_starts_with_letter [OF s] letter_not_quote have "\<not> isQuotationMark c" by blast
  ultimately show ?thesis using that s p by blast
qed

lemma key_equal_iff_keyPart_equal:
  assumes k: "keepsQuotationMarks tbl"
    and same: "filter (\<lambda>r. \<not> isQuotationMark r) t1 = filter (\<lambda>r. \<not> isQuotationMark r) t2"
  shows "(generateLineKey tbl t1 = generateLineKey tbl t2) = (keyPart t1 = keyPart t2)"
proof
  assume "keyPart t1 = keyPart t2"
  then show "generateLineKey tbl t1 = generateLineKey tbl t2" by (simp only: generateLineKey_keyPart)
next
  assume eq: "generateLineKey tbl t1 = generateLineKey tbl t2"
  let ?L = "unicode_ToLower tbl"
  let ?nq = "\<lambda>r. \<not> isQuotationMark r"
  define d where "d = (\<lambda>t. 2 \<le> length (map ?L (keyPart t)) \<and> map ?L (keyPart t) ! 1 = 0x2E)"
  from same have nq: "filter ?nq (keyPart t1) = filter ?nq (keyPart t2)"
    by (simp only: keyPart_without_quotes)
  have key: "\<And>t. generateLineKey tbl t = (if d t then drop 2 (map ?L (keyPart t)) else map ?L (keyPart t))"
    by (simp add: generateLineKey_keyPart Let_def d_def)
  have shape: "\<exists>c p rest. keyPart u = c # p # rest \<and> ?nq c \<and> ?nq p" if "d u" for u
  proof -
    from that have "2 \<le> length (map ?L (keyPart u))" "map ?L (keyPart u) ! 1 = 0x2E"
      by (simp_all add: d_def)
    from dotted_shape [OF k this] show ?thesis by metis
  qed
  have mixed: "False" if d1: "d u" and d2: "\<not> d v"
    and e: "drop 2 (map ?L (keyPart u)) = map ?L (keyPart v)"
    and n: "filter ?nq (keyPart u) = filter ?nq (keyPart v)" for u v
  proof -
    from shape [OF d1] obtain c p rest where s: "keyPart u = c # p # rest" "?nq c" "?nq p"
      by blast
    with e have "map ?L rest = map ?L (keyPart v)" by simp
    from lowered_equal_same_count [OF k this]
    have "length (filter ?nq rest) = length (filter ?nq (keyPart v))" .
    moreover from n s have "length (filter ?nq (keyPart v)) = Suc (Suc (length (filter ?nq rest)))"
      by (metis filter.simps(2) length_Cons)
    ultimately show False by simp
  qed
  show "keyPart t1 = keyPart t2"
  proof (cases "d t1")
    case d1: True
    show ?thesis
    proof (cases "d t2")
      case d2: True
      from shape [OF d1] obtain c1 p1 r1 where s1: "keyPart t1 = c1 # p1 # r1" "?nq c1" "?nq p1"
        by blast
      from shape [OF d2] obtain c2 p2 r2 where s2: "keyPart t2 = c2 # p2 # r2" "?nq c2" "?nq p2"
        by blast
      from eq d1 d2 s1 s2 have m: "map ?L r1 = map ?L r2" by (simp add: key)
      then have len: "length r1 = length r2" by (rule map_eq_imp_length_eq)
      from nq s1 s2 have "c1 = c2" "p1 = p2" "filter ?nq r1 = filter ?nq r2" by auto
      with lowered_equal_same_rest [OF k len m] s1 s2 show ?thesis by simp
    next
      case d2: False
      from eq d1 d2 have "drop 2 (map ?L (keyPart t1)) = map ?L (keyPart t2)" by (simp add: key)
      from mixed [OF d1 d2 this nq] show ?thesis ..
    qed
  next
    case d1: False
    show ?thesis
    proof (cases "d t2")
      case d2: True
      from eq d1 d2 have "drop 2 (map ?L (keyPart t2)) = map ?L (keyPart t1)" by (simp add: key)
      from mixed [OF d2 d1 this nq [symmetric]] show ?thesis ..
    next
      case d2: False
      from eq d1 d2 have m: "map ?L (keyPart t1) = map ?L (keyPart t2)" by (simp add: key)
      then have len: "length (keyPart t1) = length (keyPart t2)" by (rule map_eq_imp_length_eq)
      from lowered_equal_same_rest [OF k len m nq] show ?thesis .
    qed
  qed
qed

lemma quote_is_kept: "isQuotationMark r \<Longrightarrow> isKeptRune r"
  by (auto simp: isQuotationMark_def isKeptRune_def)

lemma keyPart_after_letter:
  assumes "list_ex isEnglishLetter xs"
  shows "keyPart (xs @ zs) = keyPart xs @ filter isKeptRune zs"
proof -
  from assms obtain x where "x \<in> set xs" "\<not> \<not> isEnglishLetter x" by (auto simp: list_ex_iff)
  then have "dropWhile (\<lambda>r. \<not> isEnglishLetter r) (xs @ zs) = dropWhile (\<lambda>r. \<not> isEnglishLetter r) xs @ zs"
    by (rule dropWhile_append1)
  then show ?thesis by (simp add: keyPart_def)
qed

lemma caseRangesLatin1_keeps_quotes: "keepsQuotationMarks caseRangesLatin1"
  by (auto simp: keepsQuotationMarks_def caseRangesLatin1_def isQuotationMark_def)

text \<open>
  C7 (as amended). For every text, the key is unchanged by inserting or removing a run
  of spaces, tabs, newlines and carriage returns anywhere in it, and by changing the case
  of its ASCII letters. It is sensitive to quotation marks from the first ASCII letter
  on, and only there: two texts that differ only in quotation marks have different keys
  exactly when their parts from the first ASCII letter on differ (white space aside); so
  a quotation mark put in anywhere after the first ASCII letter changes the key, while
  one before the first ASCII letter is dropped with everything else that stands there.
\<close>

theorem C7_key_invariance:
  "((\<forall>r\<in>set ws. \<not> isKeptRune r) \<longrightarrow>
       generateLineKey tbl (xs @ ws @ ys) = generateLineKey tbl (xs @ ys))
   \<and> (map asciiLowercase t1 = map asciiLowercase t2 \<longrightarrow>
       generateLineKey tbl t1 = generateLineKey tbl t2)
   \<and> (keepsQuotationMarks tbl \<and> differOnlyInQuotationMarks u1 u2 \<longrightarrow>
       (generateLineKey tbl u1 \<noteq> generateLineKey tbl u2) = (keyPart u1 \<noteq> keyPart u2))
   \<and> (keepsQuotationMarks tbl \<and> list_ex isEnglishLetter vs \<and> isQuotationMark q \<longrightarrow>
       generateLineKey tbl (vs @ q # zs) \<noteq> generateLineKey tbl (vs @ zs))"
proof (intro conjI impI)
  assume "\<forall>r\<in>set ws. \<not> isKeptRune r"
  then show "generateLineKey tbl (xs @ ws @ ys) = generateLineKey tbl (xs @ ys)"
    by (rule key_whitespace_invariant)
next
  assume "map asciiLowercase t1 = map asciiLowercase t2"
  then show "generateLineKey tbl t1 = generateLineKey tbl t2"
    by (rule key_case_invariant)
next
  assume "keepsQuotationMarks tbl \<and> differOnlyInQuotationMarks u1 u2"
  then show "(generateLineKey tbl u1 \<noteq> generateLineKey tbl u2) = (keyPart u1 \<noteq> keyPart u2)"
    using key_equal_iff_keyPart_equal [of tbl u1 u2] by (simp add: differOnlyInQuotationMarks_def)
next
  assume a: "keepsQuotationMarks tbl \<and> list_ex isEnglishLetter vs \<and> isQuotationMark q"
  then have "length (keyPart (vs @ q # zs)) = Suc (length (keyPart (vs @ zs)))"
    by (simp add: keyPart_after_letter quote_is_kept)
  then have "keyPart (vs @ q # zs) \<noteq> keyPart (vs @ zs)" by auto
  moreover from a have "filter (\<lambda>r. \<not> isQuotationMark r) (vs @ q # zs) = filter (\<lambda>r. \<not> isQuotationMark r) (vs @ zs)"
    by simp
  ultimately show "generateLineKey tbl (vs @ q # zs) \<noteq> generateLineKey tbl (vs @ zs)"
    using a key_equal_iff_keyPart_equal [of tbl "vs @ q # zs" "vs @ zs"] by blast
qed

text \<open>
  The claim as first stated gives different keys to every two lines that differ only in
  quotation marks. The lines \<^verbatim>\<open>"Title\<close> and \<^verbatim>\<open>Title\<close> differ only in the leading
  quotation mark and have the same key.
\<close>

theorem C7_leading_quotation_mark_counterexample:
  "differOnlyInQuotationMarks (0x22 # runes ''Title'') (runes ''Title'') \<and>
   generateLineKey caseRangesLatin1 (0x22 # runes ''Title'') = generateLineKey caseRangesLatin1 (runes ''Title'')"
  by (simp add: differOnlyInQuotationMarks_def isQuotationMark_def matcher_eval)

theorem C7_key_invariance_witness:
  "generateLineKey caseRangesLatin1 (runes ''Heritage'' @ [0x20, 0x09] @ runes ''Baptist'') =
     generateLineKey caseRangesLatin1 (runes ''Heritage'' @ runes ''Baptist'') \<and>
   generateLineKey caseRangesLatin1 (runes ''HERITAGE Baptist'') =
     generateLineKey caseRangesLatin1 (runes ''Heritage baptist'') \<and>
   generateLineKey caseRangesLatin1 (runes ''Title: '' @ 0x22 # runes ''Jesus'') \<noteq>
     generateLineKey caseRangesLatin1 (runes ''Title: '' @ runes ''Jesus'') \<and>
   differOnlyInQuotationMarks (runes ''Title: '' @ 0x22 # runes ''Jesus'') (runes ''Title: '' @ runes ''Jesus'') \<and>
   keyPart (runes ''Title: '' @ 0x22 # runes ''Jesus'') \<noteq> keyPart (runes ''Title: '' @ runes ''Jesus'') \<and>
   generateLineKey caseRangesLatin1 (runes ''He said '' @ 0x201C # runes ''Amen'') \<noteq>
     generateLineKey caseRangesLatin1 (runes ''He said '' @ runes ''Amen'')"
proof -
  note inst = C7_key_invariance [of "[0x20, 0x09]" caseRangesLatin1 "runes ''Heritage''" "runes ''Baptist''"
      "runes ''HERITAGE Baptist''" "runes ''Heritage baptist''"
      "runes ''Title: '' @ 0x22 # runes ''Jesus''" "runes ''Title: '' @ runes ''Jesus''" "runes ''He said ''" "0x201C" "runes ''Amen''"]
  have l: "list_ex isEnglishLetter (runes ''He said '')" by (simp add: runes_def isEnglishLetter_def)
  have q: "isQuotationMark 0x201C" by (simp add: isQuotationMark_def)
  have ws: "\<forall>r\<in>set [0x20, 0x09]. \<not> isKeptRune r" by (simp add: isKeptRune_def)
  have lower: "map asciiLowercase (runes ''HERITAGE Baptist'') = map asciiLowercase (runes ''Heritage baptist'')"
    by (simp add: runes_def asciiLowercase_def)
  have d: "differOnlyInQuotationMarks (runes ''Title: '' @ 0x22 # runes ''Jesus'') (runes ''Title: '' @ runes ''Jesus'')"
    by (simp add: differOnlyInQuotationMarks_def isQuotationMark_def runes_def)
  have p: "keyPart (runes ''Title: '' @ 0x22 # runes ''Jesus'') \<noteq> keyPart (runes ''Title: '' @ runes ''Jesus'')"
    by (simp add: keyPart_def runes_def isEnglishLetter_def isKeptRune_def)
  from inst [THEN conjunct1] ws
  have 1: "generateLineKey caseRangesLatin1 (runes ''Heritage'' @ [0x20, 0x09] @ runes ''Baptist'') =
     generateLineKey caseRangesLatin1 (runes ''Heritage'' @ runes ''Baptist'')" by blast
  from inst [THEN conjunct2, THEN conjunct1] lower
  have 2: "generateLineKey caseRangesLatin1 (runes ''HERITAGE Baptist'') =
     generateLineKey caseRangesLatin1 (runes ''Heritage baptist'')" by blast
  from inst [THEN conjunct2, THEN conjunct2, THEN conjunct1] caseRangesLatin1_keeps_quotes d p
  have 3: "generateLineKey caseRangesLatin1 (runes ''Title: '' @ 0x22 # runes ''Jesus'') \<noteq>
     generateLineKey caseRangesLatin1 (runes ''Title: '' @ runes ''Jesus'')" by blast
  from inst [THEN conjunct2, THEN conjunct2, THEN conjunct2] caseRangesLatin1_keeps_quotes l q
  have 4: "generateLineKey caseRangesLatin1 (runes ''He said '' @ 0x201C # runes ''Amen'') \<noteq>
     generateLineKey caseRangesLatin1 (runes ''He said '' @ runes ''Amen'')" by blast
  from 1 2 3 4 d p show ?thesis by blast
qed

section \<open>Properties of the driver\<close>

lemmas line_source_eval =
  documentOfLines_def getNextNonEmptyLine_def nextLineFrom.simps scanLines.simps paragraphText_def
  extractLineFeatures_def

lemmas driver_eval =
  startState_def mainLoopBody_def mainLoopAdvance_def mainLoopLine_def
  fastForwardBody_def fastForwardAdvance_def fastForwardLine_def
  AnalyzeLineMatch_def shouldAddEmptyLine_def shouldFollowPreviousLineStyle_def
  shouldAdvanceSourceCursor_def linesMatch_def

lemmas example_eval = cursorAtStart_def titleLine_def chineseLine_def quotedTitleLine_def amenLine_def numberLine_def

lemmas run_eval = driver_eval example_eval line_source_eval matcher_eval

subsection \<open>A run is its iterations\<close>

lemma entered_run:
  "entersIteration tbl src tgt startLoop phase loopID s \<Longrightarrow>
     (phase = FastForwarding \<longrightarrow> loopID < startLoop) \<and>
     synchronizeDocuments tbl src tgt startLoop = restOfRun tbl startLoop phase loopID s"
proof (induction rule: entersIteration.induct)
  case (first_fast_forward s)
  then show ?case by (simp add: synchronizeDocuments_def)
next
  case (first_main s)
  then show ?case by (simp add: synchronizeDocuments_def)
next
  case (next_fast_forward loopID s s')
  then show ?case by (simp add: fastForward.simps [of tbl startLoop loopID s])
next
  case (fast_forward_done loopID s s')
  then show ?case
    by (simp add: fastForward.simps [of tbl startLoop loopID s] fastForward.simps [of tbl startLoop "Suc loopID" s'])
next
  case (next_main loopID s s')
  then show ?case by (simp add: mainLoop.simps [of tbl loopID s])
qed

lemma failing_iteration_ends_run:
  assumes "entersIteration tbl src tgt startLoop phase loopID s"
    and "iteration tbl phase loopID s = Return e"
  shows "synchronizeDocuments tbl src tgt startLoop = Inl e"
proof (cases phase)
  case FastForwarding
  with assms entered_run [OF assms(1)] show ?thesis
    by (simp add: fastForward.simps [of tbl startLoop loopID s] split: sum.splits)
next
  case Synchronizing
  with assms entered_run [OF assms(1)] show ?thesis
    by (simp add: mainLoop.simps [of tbl loopID s])
qed

lemma main_failure_has_iteration:
  "entersIteration tbl src tgt startLoop Synchronizing loopID s \<Longrightarrow> mainLoop tbl loopID s = Inl e \<Longrightarrow>
     \<exists>l' s'. entersIteration tbl src tgt startLoop Synchronizing l' s' \<and> mainLoopBody tbl l' s' = Return e"
proof (induction tbl loopID s rule: mainLoop.induct)
  case (1 tbl loopID s)
  show ?case
  proof (cases "mainLoopBody tbl loopID s")
    case (Continue s')
    with "1.prems" have "mainLoop tbl (Suc loopID) s' = Inl e" by (simp add: mainLoop.simps [of tbl loopID s])
    moreover from "1.prems"(1) Continue have "entersIteration tbl src tgt startLoop Synchronizing (Suc loopID) s'"
      by (rule next_main)
    ultimately show ?thesis using "1.IH" [OF Continue] by blast
  next
    case (Break s')
    with "1.prems" show ?thesis by (simp add: mainLoop.simps [of tbl loopID s])
  next
    case (Return e')
    with "1.prems" have "e' = e" by (simp add: mainLoop.simps [of tbl loopID s])
    with Return "1.prems"(1) show ?thesis by blast
  qed
qed

lemma fast_forward_failure_has_iteration:
  "entersIteration tbl src tgt startLoop FastForwarding loopID s \<Longrightarrow>
   restOfRun tbl startLoop FastForwarding loopID s = Inl e \<Longrightarrow>
     \<exists>phase l' s'. entersIteration tbl src tgt startLoop phase l' s' \<and> iteration tbl phase l' s' = Return e"
proof (induction tbl startLoop loopID s rule: fastForward.induct)
  case (1 tbl startLoop loopID s)
  from entered_run [OF "1.prems"(1)] have lt: "loopID < startLoop" by simp
  show ?case
  proof (cases "fastForwardBody tbl s")
    case (Inl e')
    with lt "1.prems"(2) have "e' = e" by (simp add: fastForward.simps [of tbl startLoop loopID s])
    with Inl have "iteration tbl FastForwarding loopID s = Return e" by simp
    with "1.prems"(1) show ?thesis by blast
  next
    case (Inr s')
    show ?thesis
    proof (cases "Suc loopID < startLoop")
      case True
      with "1.prems"(1) Inr have "entersIteration tbl src tgt startLoop FastForwarding (Suc loopID) s'"
        by (intro next_fast_forward)
      moreover from lt Inr "1.prems"(2) have "restOfRun tbl startLoop FastForwarding (Suc loopID) s' = Inl e"
        by (simp add: fastForward.simps [of tbl startLoop loopID s])
      ultimately show ?thesis using "1.IH" [OF lt Inr] by blast
    next
      case False
      with "1.prems"(1) Inr have ent: "entersIteration tbl src tgt startLoop Synchronizing startLoop s'"
        by (intro fast_forward_done)
      from lt Inr False "1.prems"(2) have "mainLoop tbl startLoop s' = Inl e"
        by (simp add: fastForward.simps [of tbl startLoop loopID s] fastForward.simps [of tbl startLoop "Suc loopID" s'])
      from main_failure_has_iteration [OF ent this] show ?thesis
        by (metis iteration.simps(2))
    qed
  qed
qed

lemma run_failure_iff:
  "(synchronizeDocuments tbl src tgt startLoop = Inl (Sync e)) =
     (\<exists>phase loopID s. entersIteration tbl src tgt startLoop phase loopID s \<and>
        iteration tbl phase loopID s = Return (Sync e))"
proof
  assume "\<exists>phase loopID s. entersIteration tbl src tgt startLoop phase loopID s \<and>
        iteration tbl phase loopID s = Return (Sync e)"
  then show "synchronizeDocuments tbl src tgt startLoop = Inl (Sync e)"
    using failing_iteration_ends_run by blast
next
  assume run: "synchronizeDocuments tbl src tgt startLoop = Inl (Sync e)"
  then obtain s0 where s0: "startState tbl src tgt = Inr s0"
    by (cases "startState tbl src tgt") (auto simp: synchronizeDocuments_def startState_def split: prod.splits sum.splits)
  show "\<exists>phase loopID s. entersIteration tbl src tgt startLoop phase loopID s \<and>
        iteration tbl phase loopID s = Return (Sync e)"
  proof (cases "1 < startLoop")
    case True
    with s0 have ent: "entersIteration tbl src tgt startLoop FastForwarding 1 s0" by (intro first_fast_forward)
    from entered_run [OF ent] run have "restOfRun tbl startLoop FastForwarding 1 s0 = Inl (Sync e)" by simp
    from fast_forward_failure_has_iteration [OF ent this] show ?thesis .
  next
    case False
    with s0 have ent: "entersIteration tbl src tgt startLoop Synchronizing startLoop s0" by (intro first_main)
    from entered_run [OF ent] run have "mainLoop tbl startLoop s0 = Inl (Sync e)" by simp
    from main_failure_has_iteration [OF ent this] show ?thesis by (metis iteration.simps(2))
  qed
qed

lemma startState_keyInSync: "startState tbl src tgt = Inr s \<Longrightarrow> keyInSync tbl s"
  by (auto simp: startState_def keyInSync_def split: prod.splits sum.splits)

lemma mainLoopAdvance_keyInSync:
  "mainLoopAdvance tbl s = Continue s1 \<Longrightarrow> keyInSync tbl s \<Longrightarrow> keyInSync tbl s1"
  by (auto simp: mainLoopAdvance_def keyInSync_def split: if_splits prod.splits sum.splits)

lemma fastForwardAdvance_keyInSync:
  "fastForwardAdvance tbl s = Inr s1 \<Longrightarrow> keyInSync tbl s \<Longrightarrow> keyInSync tbl s1"
  by (auto simp: fastForwardAdvance_def keyInSync_def split: if_splits prod.splits sum.splits)

lemma advance_same:
  "(mainLoopAdvance tbl s = Continue s1) = (fastForwardAdvance tbl s = Inr s1)"
  by (auto simp: mainLoopAdvance_def fastForwardAdvance_def split: if_splits prod.splits sum.splits)

lemma mainLoopLine_Return:
  "(mainLoopLine tbl loopID s t = Return e) =
     (classifyLineType tbl (LineInfo.Text t) \<noteq> LineTypeChinese \<and>
      classifyLineType tbl (LineInfo.Text t) \<noteq> LineTypeMixed \<and>
      generateLineKey tbl (LineInfo.Text (sourceLineInfo s)) \<noteq> generateLineKey tbl (LineInfo.Text t) \<and>
      e = Sync (mismatch s (generateLineKey tbl (LineInfo.Text t))))"
  by (auto simp: mainLoopLine_def AnalyzeLineMatch_def linesMatch_def mismatch_def Let_def
      split: option.splits)

lemma fastForwardLine_Inl:
  "(fastForwardLine tbl s t = Inl e) =
     (classifyLineType tbl (LineInfo.Text t) \<noteq> LineTypeChinese \<and>
      classifyLineType tbl (LineInfo.Text t) \<noteq> LineTypeMixed \<and>
      generateLineKey tbl (LineInfo.Text (sourceLineInfo s)) \<noteq> generateLineKey tbl (LineInfo.Text t) \<and>
      e = Sync (mismatch s (generateLineKey tbl (LineInfo.Text t))))"
  by (auto simp: fastForwardLine_def AnalyzeLineMatch_def linesMatch_def mismatch_def Let_def)

lemma mainLoopLine_keeps_source:
  "mainLoopLine tbl loopID s t = Continue s' \<Longrightarrow>
     sourceKey s' = sourceKey s \<and> sourceLineInfo s' = sourceLineInfo s"
  by (auto simp: mainLoopLine_def Let_def split: if_splits option.splits)

lemma fastForwardLine_keeps_source:
  "fastForwardLine tbl s t = Inr s' \<Longrightarrow>
     sourceKey s' = sourceKey s \<and> sourceLineInfo s' = sourceLineInfo s"
  by (auto simp: fastForwardLine_def Let_def split: if_splits)

lemma mainLoopBody_Continue:
  "mainLoopBody tbl loopID s = Continue s' \<Longrightarrow>
     \<exists>s1 t c. mainLoopAdvance tbl s = Continue s1 \<and> getNextNonEmptyLine (targetCursor s1) = (Inr t, c) \<and>
       mainLoopLine tbl loopID (withTargetLine s1 c) t = Continue s'"
  by (auto simp: mainLoopBody_def withTargetLine_def split: Flow.splits prod.splits sum.splits if_splits)

lemma fastForwardBody_Inr:
  "fastForwardBody tbl s = Inr s' \<Longrightarrow>
     \<exists>s1 t c. fastForwardAdvance tbl s = Inr s1 \<and> getNextNonEmptyLine (targetCursor s1) = (Inr t, c) \<and>
       fastForwardLine tbl (withTargetLine s1 c) t = Inr s'"
  by (auto simp: fastForwardBody_def withTargetLine_def split: prod.splits sum.splits if_splits)

lemma mainLoopBody_Sync:
  "(mainLoopBody tbl loopID s = Return (Sync e)) =
     (\<exists>s1 t c. mainLoopAdvance tbl s = Continue s1 \<and> getNextNonEmptyLine (targetCursor s1) = (Inr t, c) \<and>
        mainLoopLine tbl loopID (withTargetLine s1 c) t = Return (Sync e))"
  by (auto simp: mainLoopBody_def withTargetLine_def mainLoopAdvance_def
      split: Flow.splits prod.splits sum.splits if_splits)

lemma fastForwardBody_Sync:
  "(fastForwardBody tbl s = Inl (Sync e)) =
     (\<exists>s1 t c. fastForwardAdvance tbl s = Inr s1 \<and> getNextNonEmptyLine (targetCursor s1) = (Inr t, c) \<and>
        fastForwardLine tbl (withTargetLine s1 c) t = Inl (Sync e))"
  by (auto simp: fastForwardBody_def withTargetLine_def fastForwardAdvance_def
      split: prod.splits sum.splits if_splits)

lemma mainLoopBody_keyInSync:
  assumes "mainLoopBody tbl loopID s = Continue s'" "keyInSync tbl s"
  shows "keyInSync tbl s'"
proof -
  from mainLoopBody_Continue [OF assms(1)] obtain s1 t c where
    a: "mainLoopAdvance tbl s = Continue s1" and
    l: "mainLoopLine tbl loopID (withTargetLine s1 c) t = Continue s'" by blast
  from mainLoopAdvance_keyInSync [OF a assms(2)] mainLoopLine_keeps_source [OF l]
  show ?thesis by (simp add: keyInSync_def withTargetLine_def)
qed

lemma fastForwardBody_keyInSync:
  assumes "fastForwardBody tbl s = Inr s'" "keyInSync tbl s"
  shows "keyInSync tbl s'"
proof -
  from fastForwardBody_Inr [OF assms(1)] obtain s1 t c where
    a: "fastForwardAdvance tbl s = Inr s1" and
    l: "fastForwardLine tbl (withTargetLine s1 c) t = Inr s'" by blast
  from fastForwardAdvance_keyInSync [OF a assms(2)] fastForwardLine_keeps_source [OF l]
  show ?thesis by (simp add: keyInSync_def withTargetLine_def)
qed

lemma entered_keyInSync:
  "entersIteration tbl src tgt startLoop phase loopID s \<Longrightarrow> keyInSync tbl s"
  by (induction rule: entersIteration.induct)
    (auto intro: startState_keyInSync mainLoopBody_keyInSync fastForwardBody_keyInSync)

lemma iteration_Sync:
  assumes "keyInSync tbl s"
  shows "(iteration tbl phase loopID s = Return (Sync e)) = (\<exists>s1 t. raisesAt tbl phase s s1 t e)"
proof (cases phase)
  case FastForwarding
  have "(fastForwardBody tbl s = Inl (Sync e)) = (\<exists>s1 t. raisesAt tbl FastForwarding s s1 t e)"
  proof
    assume "fastForwardBody tbl s = Inl (Sync e)"
    then obtain s1 t c where a: "fastForwardAdvance tbl s = Inr s1"
      and p: "getNextNonEmptyLine (targetCursor s1) = (Inr t, c)"
      and l: "fastForwardLine tbl (withTargetLine s1 c) t = Inl (Sync e)"
      by (auto simp: fastForwardBody_Sync)
    from fastForwardAdvance_keyInSync [OF a assms] have k: "keyInSync tbl s1" .
    from l k a p have "raisesAt tbl FastForwarding s s1 t e"
      by (auto simp: fastForwardLine_Inl raisesAt_def mismatch_def withTargetLine_def keyInSync_def)
    then show "\<exists>s1 t. raisesAt tbl FastForwarding s s1 t e" by blast
  next
    assume "\<exists>s1 t. raisesAt tbl FastForwarding s s1 t e"
    then obtain s1 t where r: "raisesAt tbl FastForwarding s s1 t e" by blast
    then have a: "fastForwardAdvance tbl s = Inr s1" by (simp add: raisesAt_def)
    from r obtain c where p: "getNextNonEmptyLine (targetCursor s1) = (Inr t, c)"
      by (cases "getNextNonEmptyLine (targetCursor s1)") (auto simp: raisesAt_def)
    from fastForwardAdvance_keyInSync [OF a assms] have k: "keyInSync tbl s1" .
    from r k have "fastForwardLine tbl (withTargetLine s1 c) t = Inl (Sync e)"
      by (auto simp: fastForwardLine_Inl raisesAt_def mismatch_def withTargetLine_def keyInSync_def)
    with a p show "fastForwardBody tbl s = Inl (Sync e)" by (auto simp: fastForwardBody_Sync)
  qed
  with FastForwarding show ?thesis by (auto split: sum.splits)
next
  case Synchronizing
  have "(mainLoopBody tbl loopID s = Return (Sync e)) = (\<exists>s1 t. raisesAt tbl Synchronizing s s1 t e)"
  proof
    assume "mainLoopBody tbl loopID s = Return (Sync e)"
    then obtain s1 t c where a: "mainLoopAdvance tbl s = Continue s1"
      and p: "getNextNonEmptyLine (targetCursor s1) = (Inr t, c)"
      and l: "mainLoopLine tbl loopID (withTargetLine s1 c) t = Return (Sync e)"
      by (auto simp: mainLoopBody_Sync)
    from mainLoopAdvance_keyInSync [OF a assms] have k: "keyInSync tbl s1" .
    from l k a p have "raisesAt tbl Synchronizing s s1 t e"
      by (auto simp: mainLoopLine_Return raisesAt_def mismatch_def withTargetLine_def keyInSync_def)
    then show "\<exists>s1 t. raisesAt tbl Synchronizing s s1 t e" by blast
  next
    assume "\<exists>s1 t. raisesAt tbl Synchronizing s s1 t e"
    then obtain s1 t where r: "raisesAt tbl Synchronizing s s1 t e" by blast
    then have a: "mainLoopAdvance tbl s = Continue s1" by (simp add: raisesAt_def)
    from r obtain c where p: "getNextNonEmptyLine (targetCursor s1) = (Inr t, c)"
      by (cases "getNextNonEmptyLine (targetCursor s1)") (auto simp: raisesAt_def)
    from mainLoopAdvance_keyInSync [OF a assms] have k: "keyInSync tbl s1" .
    from r k have "mainLoopLine tbl loopID (withTargetLine s1 c) t = Return (Sync e)"
      by (auto simp: mainLoopLine_Return raisesAt_def mismatch_def withTargetLine_def keyInSync_def)
    with a p show "mainLoopBody tbl loopID s = Return (Sync e)" by (auto simp: mainLoopBody_Sync)
  qed
  with Synchronizing show ?thesis by simp
qed

text \<open>
  C1. A run returns a \<^verbatim>\<open>SyncError\<close> exactly when, in one of the iterations it enters
  (of the fast-forward loop or of the main loop), the target line read is neither Chinese
  nor Mixed and its key differs from the key of the current source line; the error then
  carries the current source line number, the number of that target line and the two
  keys. The run stops there: whatever error an entered iteration returns is the result
  of the run. A target line that is Chinese or Mixed never makes the line handling of
  either loop return: it always goes on to the next iteration.
\<close>

theorem C1_SyncError_exactly_on_mismatch:
  "((synchronizeDocuments tbl src tgt startLoop = Inl (Sync e)) =
      (\<exists>phase loopID s s1 t. entersIteration tbl src tgt startLoop phase loopID s \<and>
          raisesAt tbl phase s s1 t e))
   \<and> (entersIteration tbl src tgt startLoop phase' loopID' s' \<and>
        iteration tbl phase' loopID' s' = Return err \<longrightarrow>
        synchronizeDocuments tbl src tgt startLoop = Inl err)
   \<and> (classifyLineType tbl (LineInfo.Text t') = LineTypeChinese \<or>
        classifyLineType tbl (LineInfo.Text t') = LineTypeMixed \<longrightarrow>
        (\<exists>u'. mainLoopLine tbl l u t' = Continue u') \<and> (\<exists>u'. fastForwardLine tbl u t' = Inr u'))"
proof (intro conjI impI)
  show "(synchronizeDocuments tbl src tgt startLoop = Inl (Sync e)) =
      (\<exists>phase loopID s s1 t. entersIteration tbl src tgt startLoop phase loopID s \<and>
          raisesAt tbl phase s s1 t e)"
    using iteration_Sync [OF entered_keyInSync]
    by (simp only: run_failure_iff) blast
next
  assume "entersIteration tbl src tgt startLoop phase' loopID' s' \<and>
        iteration tbl phase' loopID' s' = Return err"
  then show "synchronizeDocuments tbl src tgt startLoop = Inl err"
    using failing_iteration_ends_run by blast
next
  assume a: "classifyLineType tbl (LineInfo.Text t') = LineTypeChinese \<or>
        classifyLineType tbl (LineInfo.Text t') = LineTypeMixed"
  then show "\<exists>u'. mainLoopLine tbl l u t' = Continue u'"
    using mainLoopLine_Return [of tbl l u t'] by (cases "mainLoopLine tbl l u t'")
      (auto simp: mainLoopLine_def AnalyzeLineMatch_def Let_def split: option.splits)
  from a show "\<exists>u'. fastForwardLine tbl u t' = Inr u'"
    by (auto simp: fastForwardLine_def AnalyzeLineMatch_def Let_def)
qed

theorem C1_SyncError_exactly_on_mismatch_witness:
  "synchronizeDocuments caseRangesLatin1 (cursorAtStart [titleLine]) (cursorAtStart [quotedTitleLine]) 1 =
     Inl (Sync \<lparr> SourceLine = 1, TargetLine = 1,
                 SourceKey = runes ''title:jesuschrist,thesame'',
                 TargetKey = runes ''title:'' @ 0x22 # runes ''jesuschrist,thesame'' @ [0x22],
                 Message = ''Line content mismatch'' \<rparr>) \<and>
   (\<exists>u'. mainLoopLine caseRangesLatin1 1
            (projr (startState caseRangesLatin1 (cursorAtStart [titleLine]) (cursorAtStart [quotedTitleLine])))
            \<lparr> LineInfo.Text = chineseLine,
              Element = \<lparr> StartIndex = 1, EndIndex = 6, Paragraph = None \<rparr>,
              TextRun = None \<rparr> = Continue u')"
proof -
  define S where "S = projr (startState caseRangesLatin1 (cursorAtStart [titleLine]) (cursorAtStart [quotedTitleLine]))"
  define E where "E = \<lparr> SourceLine = 1, TargetLine = 1,
                 SourceKey = runes ''title:jesuschrist,thesame'',
                 TargetKey = runes ''title:'' @ 0x22 # runes ''jesuschrist,thesame'' @ [0x22],
                 Message = ''Line content mismatch'' \<rparr>"
  define T where "T = \<lparr> LineInfo.Text = chineseLine,
              Element = \<lparr> StartIndex = 1, EndIndex = 6, Paragraph = None \<rparr>,
              TextRun = None \<rparr>"
  note inst = C1_SyncError_exactly_on_mismatch [of caseRangesLatin1 "cursorAtStart [titleLine]"
      "cursorAtStart [quotedTitleLine]" 1 E Synchronizing 1 S "Sync E" T 1 S]
  have st: "startState caseRangesLatin1 (cursorAtStart [titleLine]) (cursorAtStart [quotedTitleLine]) = Inr S"
    by (simp add: S_def run_eval)
  then have ent: "entersIteration caseRangesLatin1 (cursorAtStart [titleLine]) (cursorAtStart [quotedTitleLine]) 1
      Synchronizing 1 S"
    by (rule first_main) simp
  have it: "iteration caseRangesLatin1 Synchronizing 1 S = Return (Sync E)"
    by (simp add: S_def E_def run_eval)
  from inst [THEN conjunct2, THEN conjunct1] ent it
  have 1: "synchronizeDocuments caseRangesLatin1 (cursorAtStart [titleLine]) (cursorAtStart [quotedTitleLine]) 1 =
     Inl (Sync E)" by blast
  have "classifyLineType caseRangesLatin1 (LineInfo.Text T) = LineTypeChinese"
    by (simp add: T_def chineseLine_def matcher_eval)
  with inst [THEN conjunct2, THEN conjunct2]
  have 2: "\<exists>u'. mainLoopLine caseRangesLatin1 1 S T = Continue u'" by blast
  from 1 2 show ?thesis unfolding S_def E_def T_def by blast
qed

subsection \<open>Lines that are neither English nor Chinese\<close>



subsection \<open>Source exhaustion in the main loop\<close>

text \<open>
  C2 (as amended). With the source lines ["Title: Jesus Christ, the Same"] and the target
  lines ["Title: Jesus Christ, the Same", the four Chinese characters, "Title: Jesus
  Christ, the Same"], the run from iteration 1 matches target line 1 against source
  line 1 without moving the source cursor, takes target line 2 as Chinese and sets the
  flag, and in iteration 3 tries to advance the source cursor, finds the source
  exhausted and leaves the loop by \<^verbatim>\<open>break\<close>: target line 3 is never read, the tab table
  is empty, and the run ends without an error. For no \<open>startLoop\<close> does the run return a
  \<^verbatim>\<open>SyncError\<close>: up to 3 it ends without an error, from 4 on the fast-forward loop meets
  the exhausted source and returns "reached end of source document while
  fast-forwarding at source line 1".
\<close>

theorem C2_source_exhaustion_ends_the_run:
  "(case startState tbl (cursorAtStart [titleLine]) (cursorAtStart [titleLine, chineseLine, titleLine]) of
      Inl e \<Rightarrow> False
    | Inr s0 \<Rightarrow>
        sourceLineNum s0 = 1 \<and> targetLineNum s0 = 0 \<and> \<not> lastProcessedWasChinese s0 \<and>
        (case mainLoopBody tbl 1 s0 of
           Continue s1 \<Rightarrow>
             sourceCursor s1 = sourceCursor s0 \<and> sourceLineNum s1 = 1 \<and> targetLineNum s1 = 1 \<and>
             \<not> lastProcessedWasChinese s1 \<and>
             (case mainLoopBody tbl 2 s1 of
                Continue s2 \<Rightarrow>
                  sourceCursor s2 = sourceCursor s0 \<and> sourceLineNum s2 = 1 \<and> targetLineNum s2 = 2 \<and>
                  lastProcessedWasChinese s2 \<and>
                  (case mainLoopBody tbl 3 s2 of
                     Break s3 \<Rightarrow>
                       mainLoopAdvance tbl s2 = Break s3 \<and>
                       targetCursor s3 = targetCursor s2 \<and> sourceLineNum s3 = 1 \<and> targetLineNum s3 = 2 \<and>
                       lastProcessedWasChinese s3 \<and> tabsToAddMap s3 = Map.empty \<and>
                       processDualDocuments tbl (documentOfLines [titleLine])
                         (documentOfLines [titleLine, chineseLine, titleLine]) 1 = Inr s3
                   | _ \<Rightarrow> False)
              | _ \<Rightarrow> False)
         | _ \<Rightarrow> False))
   \<and> (n \<le> 3 \<longrightarrow>
        \<not> isl (processDualDocuments tbl (documentOfLines [titleLine])
                 (documentOfLines [titleLine, chineseLine, titleLine]) n))
   \<and> (3 < n \<longrightarrow>
        processDualDocuments tbl (documentOfLines [titleLine])
          (documentOfLines [titleLine, chineseLine, titleLine]) n =
        Inl (ReachedEndOfSourceWhileFastForwarding 1))"
proof (intro conjI impI)
  show "(case startState tbl (cursorAtStart [titleLine]) (cursorAtStart [titleLine, chineseLine, titleLine]) of
      Inl e \<Rightarrow> False
    | Inr s0 \<Rightarrow>
        sourceLineNum s0 = 1 \<and> targetLineNum s0 = 0 \<and> \<not> lastProcessedWasChinese s0 \<and>
        (case mainLoopBody tbl 1 s0 of
           Continue s1 \<Rightarrow>
             sourceCursor s1 = sourceCursor s0 \<and> sourceLineNum s1 = 1 \<and> targetLineNum s1 = 1 \<and>
             \<not> lastProcessedWasChinese s1 \<and>
             (case mainLoopBody tbl 2 s1 of
                Continue s2 \<Rightarrow>
                  sourceCursor s2 = sourceCursor s0 \<and> sourceLineNum s2 = 1 \<and> targetLineNum s2 = 2 \<and>
                  lastProcessedWasChinese s2 \<and>
                  (case mainLoopBody tbl 3 s2 of
                     Break s3 \<Rightarrow>
                       mainLoopAdvance tbl s2 = Break s3 \<and>
                       targetCursor s3 = targetCursor s2 \<and> sourceLineNum s3 = 1 \<and> targetLineNum s3 = 2 \<and>
                       lastProcessedWasChinese s3 \<and> tabsToAddMap s3 = Map.empty \<and>
                       processDualDocuments tbl (documentOfLines [titleLine])
                         (documentOfLines [titleLine, chineseLine, titleLine]) 1 = Inr s3
                   | _ \<Rightarrow> False)
              | _ \<Rightarrow> False)
         | _ \<Rightarrow> False))"
    by (simp add: processDualDocuments_def synchronizeDocuments_def mainLoop.simps run_eval)
next
  assume "n \<le> 3"
  then consider "n = 0" | "n = 1" | "n = 2" | "n = 3" by arith
  then show "\<not> isl (processDualDocuments tbl (documentOfLines [titleLine])
                 (documentOfLines [titleLine, chineseLine, titleLine]) n)"
  proof cases
    case 1
    then show ?thesis
      by (simp add: processDualDocuments_def synchronizeDocuments_def mainLoop.simps fastForward.simps run_eval)
  next
    case 2
    then show ?thesis
      by (simp add: processDualDocuments_def synchronizeDocuments_def mainLoop.simps fastForward.simps run_eval)
  next
    case 3
    then show ?thesis
      by (simp add: processDualDocuments_def synchronizeDocuments_def mainLoop.simps fastForward.simps run_eval)
  next
    case 4
    then show ?thesis
      by (simp add: processDualDocuments_def synchronizeDocuments_def mainLoop.simps fastForward.simps run_eval)
  qed
next
  assume "3 < n"
  then show "processDualDocuments tbl (documentOfLines [titleLine])
          (documentOfLines [titleLine, chineseLine, titleLine]) n =
        Inl (ReachedEndOfSourceWhileFastForwarding 1)"
    by (simp add: processDualDocuments_def synchronizeDocuments_def fastForward.simps run_eval)
qed

text \<open>
  The claim as first stated has the run fail with a \<^verbatim>\<open>SyncError\<close>. The run returns no
  error; it ends with the flag set, at source line 1 and target line 2.
\<close>

theorem C2_no_SyncError_counterexample:
  "\<not> isl (processDualDocuments caseRangesLatin1 (documentOfLines [titleLine])
            (documentOfLines [titleLine, chineseLine, titleLine]) 1) \<and>
   observed (projr (processDualDocuments caseRangesLatin1 (documentOfLines [titleLine])
            (documentOfLines [titleLine, chineseLine, titleLine]) 1)) =
     \<lparr> finalFlag = True, finalSourceLine = 1, finalTargetLine = 2 \<rparr>"
  by (simp add: processDualDocuments_def synchronizeDocuments_def mainLoop.simps observed_def run_eval)

theorem C2_source_exhaustion_ends_the_run_witness:
  "\<not> isl (processDualDocuments caseRangesLatin1 (documentOfLines [titleLine])
            (documentOfLines [titleLine, chineseLine, titleLine]) 3) \<and>
   processDualDocuments caseRangesLatin1 (documentOfLines [titleLine])
            (documentOfLines [titleLine, chineseLine, titleLine]) 4 =
     Inl (ReachedEndOfSourceWhileFastForwarding 1)"
  using C2_source_exhaustion_ends_the_run [of caseRangesLatin1 3, THEN conjunct2, THEN conjunct1]
    C2_source_exhaustion_ends_the_run [of caseRangesLatin1 4, THEN conjunct2, THEN conjunct2]
  by simp

subsection \<open>Fast-forwarding\<close>

lemma erase_eqD:
  assumes "withoutFormatting s = withoutFormatting u"
  obtains m cs where "u = s\<lparr> tabsToAddMap := m, formatCalls := cs \<rparr>"
proof -
  from assms have "u = s\<lparr> tabsToAddMap := tabsToAddMap u, formatCalls := formatCalls u \<rparr>"
    by (cases s, cases u) (simp add: withoutFormatting_def)
  then show ?thesis using that by blast
qed

lemma mainLoopLine_erase:
  assumes "withoutFormatting s = withoutFormatting u"
  shows "flowWithoutFormatting (mainLoopLine tbl loopID s t) =
         flowWithoutFormatting (mainLoopLine tbl loopID' u t)"
proof -
  from assms obtain m cs where u: "u = s\<lparr> tabsToAddMap := m, formatCalls := cs \<rparr>" by (rule erase_eqD)
  show ?thesis unfolding u
    by (simp add: mainLoopLine_def withoutFormatting_def Let_def split: option.splits)
qed

lemma withTargetLine_erase:
  "withoutFormatting s = withoutFormatting u \<Longrightarrow>
     withoutFormatting (withTargetLine s c) = withoutFormatting (withTargetLine u c)"
  by (erule erase_eqD) (simp add: withoutFormatting_def withTargetLine_def)

lemma mainLoopAdvance_Continue_erase:
  assumes "withoutFormatting s = withoutFormatting u" "mainLoopAdvance tbl s = Continue s1"
  shows "\<exists>u1. mainLoopAdvance tbl u = Continue u1 \<and> withoutFormatting s1 = withoutFormatting u1"
proof -
  from assms(1) obtain m cs where u: "u = s\<lparr> tabsToAddMap := m, formatCalls := cs \<rparr>" by (rule erase_eqD)
  from assms(2) show ?thesis unfolding u
    by (auto simp: mainLoopAdvance_def withoutFormatting_def split: if_splits prod.splits sum.splits)
qed

lemma erase_targetCursor:
  "withoutFormatting s = withoutFormatting u \<Longrightarrow> targetCursor s = targetCursor u"
  by (erule erase_eqD) simp

lemma mainLoopBody_erase:
  assumes e: "withoutFormatting s = withoutFormatting u"
  shows "flowWithoutFormatting (mainLoopBody tbl loopID s) = flowWithoutFormatting (mainLoopBody tbl loopID' u)"
proof (cases "mainLoopAdvance tbl s")
  case (Continue s1)
  from mainLoopAdvance_Continue_erase [OF e Continue] obtain u1 where
    u1: "mainLoopAdvance tbl u = Continue u1" and e1: "withoutFormatting s1 = withoutFormatting u1" by blast
  from erase_targetCursor [OF e1] have tc: "targetCursor u1 = targetCursor s1" by simp
  show ?thesis
  proof (cases "getNextNonEmptyLine (targetCursor s1)")
    case (Pair r c)
    show ?thesis
    proof (cases r)
      case (Inl err)
      from e1 have "withoutFormatting (s1\<lparr> targetCursor := c \<rparr>) = withoutFormatting (u1\<lparr> targetCursor := c \<rparr>)"
        by (elim erase_eqD) (simp add: withoutFormatting_def)
      with Continue u1 Pair Inl tc show ?thesis
        by (simp add: mainLoopBody_def)
    next
      case (Inr t)
      from Continue u1 Pair Inr tc have
        "mainLoopBody tbl loopID s = mainLoopLine tbl loopID (withTargetLine s1 c) t"
        "mainLoopBody tbl loopID' u = mainLoopLine tbl loopID' (withTargetLine u1 c) t"
        by (simp_all add: mainLoopBody_def withTargetLine_def)
      with mainLoopLine_erase [OF withTargetLine_erase [OF e1]] show ?thesis by simp
    qed
  qed
next
  case (Break s1)
  from e obtain m cs where u: "u = s\<lparr> tabsToAddMap := m, formatCalls := cs \<rparr>" by (rule erase_eqD)
  from Break have "mainLoopAdvance tbl u = Break (s1\<lparr> tabsToAddMap := m, formatCalls := cs \<rparr>)"
    unfolding u by (auto simp: mainLoopAdvance_def split: if_splits prod.splits sum.splits)
  with Break show ?thesis by (simp add: mainLoopBody_def withoutFormatting_def)
next
  case (Return err)
  from e obtain m cs where u: "u = s\<lparr> tabsToAddMap := m, formatCalls := cs \<rparr>" by (rule erase_eqD)
  from Return have "mainLoopAdvance tbl u = Return err"
    unfolding u by (auto simp: mainLoopAdvance_def split: if_splits prod.splits sum.splits)
  with Return show ?thesis by (simp add: mainLoopBody_def)
qed

lemma fastForwardLine_like_mainLoopLine:
  "mainLoopLine tbl loopID s t = Continue s' \<Longrightarrow>
     \<exists>u'. fastForwardLine tbl s t = Inr u' \<and> withoutFormatting u' = withoutFormatting s'"
  by (auto simp: mainLoopLine_def fastForwardLine_def withoutFormatting_def Let_def
      split: if_splits option.splits)

lemma fastForwardLine_erase:
  assumes "withoutFormatting s = withoutFormatting u" "fastForwardLine tbl s t = Inr s'"
  shows "\<exists>u'. fastForwardLine tbl u t = Inr u' \<and> withoutFormatting s' = withoutFormatting u'"
proof -
  from assms(1) obtain m cs where u: "u = s\<lparr> tabsToAddMap := m, formatCalls := cs \<rparr>" by (rule erase_eqD)
  from assms(2) show ?thesis unfolding u
    by (auto simp: fastForwardLine_def withoutFormatting_def Let_def split: if_splits)
qed

lemma fastForwardAdvance_erase:
  assumes "withoutFormatting s = withoutFormatting u" "fastForwardAdvance tbl s = Inr s1"
  shows "\<exists>u1. fastForwardAdvance tbl u = Inr u1 \<and> withoutFormatting s1 = withoutFormatting u1"
proof -
  from assms(1) obtain m cs where u: "u = s\<lparr> tabsToAddMap := m, formatCalls := cs \<rparr>" by (rule erase_eqD)
  from assms(2) show ?thesis unfolding u
    by (auto simp: fastForwardAdvance_def withoutFormatting_def split: if_splits prod.splits sum.splits)
qed

lemma fastForwardBody_like_mainLoopBody:
  assumes b: "mainLoopBody tbl loopID s = Continue s'"
    and e: "withoutFormatting s = withoutFormatting u"
  shows "\<exists>u'. fastForwardBody tbl u = Inr u' \<and> withoutFormatting s' = withoutFormatting u'"
proof -
  from mainLoopBody_Continue [OF b] obtain s1 t c where
    a: "mainLoopAdvance tbl s = Continue s1" and
    p: "getNextNonEmptyLine (targetCursor s1) = (Inr t, c)" and
    l: "mainLoopLine tbl loopID (withTargetLine s1 c) t = Continue s'" by blast
  from a have "fastForwardAdvance tbl s = Inr s1" by (simp add: advance_same)
  from fastForwardAdvance_erase [OF e this] obtain u1 where
    u1: "fastForwardAdvance tbl u = Inr u1" and e1: "withoutFormatting s1 = withoutFormatting u1" by blast
  from erase_targetCursor [OF e1] have tc: "targetCursor u1 = targetCursor s1" by simp
  from fastForwardLine_like_mainLoopLine [OF l] obtain v where
    v: "fastForwardLine tbl (withTargetLine s1 c) t = Inr v" "withoutFormatting v = withoutFormatting s'"
    by blast
  from fastForwardLine_erase [OF withTargetLine_erase [OF e1] v(1)] obtain u' where
    u': "fastForwardLine tbl (withTargetLine u1 c) t = Inr u'" "withoutFormatting v = withoutFormatting u'"
    by blast
  from u1 p tc u'(1) have "fastForwardBody tbl u = Inr u'"
    by (simp add: fastForwardBody_def withTargetLine_def)
  with v(2) u'(2) show ?thesis by simp
qed

lemma flow_erase_cases:
  assumes "flowWithoutFormatting f = flowWithoutFormatting g"
  shows "(\<exists>a b. f = Continue a \<and> g = Continue b \<and> withoutFormatting a = withoutFormatting b) \<or>
         (\<exists>a b. f = Break a \<and> g = Break b \<and> withoutFormatting a = withoutFormatting b) \<or>
         (\<exists>e. f = Return e \<and> g = Return e)"
  using assms by (cases f; cases g) auto

lemma mainLoop_erase:
  "withoutFormatting s = withoutFormatting u \<Longrightarrow>
     map_sum id withoutFormatting (mainLoop tbl loopID s) = map_sum id withoutFormatting (mainLoop tbl loopID' u)"
proof (induction tbl loopID s arbitrary: loopID' u rule: mainLoop.induct)
  case (1 tbl loopID s)
  from flow_erase_cases [OF mainLoopBody_erase [OF "1.prems", of tbl loopID loopID']]
  consider a b where "mainLoopBody tbl loopID s = Continue a" "mainLoopBody tbl loopID' u = Continue b"
      "withoutFormatting a = withoutFormatting b"
    | a b where "mainLoopBody tbl loopID s = Break a" "mainLoopBody tbl loopID' u = Break b"
      "withoutFormatting a = withoutFormatting b"
    | e where "mainLoopBody tbl loopID s = Return e" "mainLoopBody tbl loopID' u = Return e"
    by blast
  then show ?case
  proof cases
    case 1
    from "1.IH" [OF 1(1) 1(3), of "Suc loopID'"] 1(1,2) show ?thesis
      by (simp add: mainLoop.simps [of tbl loopID s] mainLoop.simps [of tbl loopID' u])
  next
    case 2
    then show ?thesis
      by (simp add: mainLoop.simps [of tbl loopID s] mainLoop.simps [of tbl loopID' u])
  next
    case 3
    then show ?thesis
      by (simp add: mainLoop.simps [of tbl loopID s] mainLoop.simps [of tbl loopID' u])
  qed
qed

lemma referenceBody_erase:
  "flowWithoutFormatting (referenceBody alsoTabs tbl N loopID s) =
   flowWithoutFormatting (mainLoopBody tbl loopID s)"
  by (cases "mainLoopBody tbl loopID s")
    (simp_all add: referenceBody_def quietBody_def withoutFormatting_def)

lemma referenceLoop_erase:
  "withoutFormatting s = withoutFormatting u \<Longrightarrow>
     map_sum id withoutFormatting (referenceLoop alsoTabs tbl N loopID s) =
     map_sum id withoutFormatting (mainLoop tbl loopID u)"
proof (induction alsoTabs tbl N loopID s arbitrary: u rule: referenceLoop.induct)
  case (1 alsoTabs tbl N loopID s)
  have "flowWithoutFormatting (referenceBody alsoTabs tbl N loopID s) =
        flowWithoutFormatting (mainLoopBody tbl loopID u)"
    using referenceBody_erase [of alsoTabs tbl N loopID s] mainLoopBody_erase [OF "1.prems", of tbl loopID loopID]
    by simp
  from flow_erase_cases [OF this]
  consider a b where "referenceBody alsoTabs tbl N loopID s = Continue a" "mainLoopBody tbl loopID u = Continue b"
      "withoutFormatting a = withoutFormatting b"
    | a b where "referenceBody alsoTabs tbl N loopID s = Break a" "mainLoopBody tbl loopID u = Break b"
      "withoutFormatting a = withoutFormatting b"
    | e where "referenceBody alsoTabs tbl N loopID s = Return e" "mainLoopBody tbl loopID u = Return e"
    by blast
  then show ?case
  proof cases
    case 1
    from "1.IH" [OF 1(1) 1(3)] 1(1,2) show ?thesis
      by (simp add: referenceLoop.simps [of alsoTabs tbl N loopID s] mainLoop.simps [of tbl loopID u])
  next
    case 2
    then show ?thesis
      by (simp add: referenceLoop.simps [of alsoTabs tbl N loopID s] mainLoop.simps [of tbl loopID u])
  next
    case 3
    then show ?thesis
      by (simp add: referenceLoop.simps [of alsoTabs tbl N loopID s] mainLoop.simps [of tbl loopID u])
  qed
qed

lemma mainLoop_from_iteration:
  "loopID \<le> N \<Longrightarrow> stateAtIteration tbl N loopID s = Some sN \<Longrightarrow>
     mainLoop tbl loopID s = mainLoop tbl N sN"
proof (induction tbl N loopID s rule: stateAtIteration.induct)
  case (1 tbl N loopID s)
  show ?case
  proof (cases "loopID < N")
    case True
    with "1.prems"(2) obtain s' where b: "mainLoopBody tbl loopID s = Continue s'"
      and r: "stateAtIteration tbl N (Suc loopID) s' = Some sN"
      by (auto simp: stateAtIteration.simps [of tbl N loopID s] split: Flow.splits)
    from "1.IH" [OF True b _ r] True have "mainLoop tbl (Suc loopID) s' = mainLoop tbl N sN" by simp
    with b show ?thesis by (simp add: mainLoop.simps [of tbl loopID s])
  next
    case False
    then have "stateAtIteration tbl N loopID s = Some s"
      by (subst stateAtIteration.simps) simp
    with False "1.prems" have "sN = s" "loopID = N" by simp_all
    then show ?thesis by simp
  qed
qed

lemma fastForward_to_iteration:
  "loopID \<le> N \<Longrightarrow> stateAtIteration tbl N loopID s = Some sN \<Longrightarrow>
   withoutFormatting s = withoutFormatting u \<Longrightarrow>
     \<exists>uN. fastForward tbl N loopID u = Inr uN \<and> withoutFormatting sN = withoutFormatting uN"
proof (induction tbl N loopID s arbitrary: u rule: stateAtIteration.induct)
  case (1 tbl N loopID s)
  show ?case
  proof (cases "loopID < N")
    case True
    with "1.prems"(2) obtain s' where b: "mainLoopBody tbl loopID s = Continue s'"
      and r: "stateAtIteration tbl N (Suc loopID) s' = Some sN"
      by (auto simp: stateAtIteration.simps [of tbl N loopID s] split: Flow.splits)
    from fastForwardBody_like_mainLoopBody [OF b "1.prems"(3)] obtain u' where
      u': "fastForwardBody tbl u = Inr u'" "withoutFormatting s' = withoutFormatting u'" by blast
    from "1.IH" [OF True b _ r u'(2)] True obtain uN where
      "fastForward tbl N (Suc loopID) u' = Inr uN" "withoutFormatting sN = withoutFormatting uN" by auto
    with True u'(1) show ?thesis by (simp add: fastForward.simps [of tbl N loopID u])
  next
    case False
    then have "stateAtIteration tbl N loopID s = Some s"
      by (subst stateAtIteration.simps) simp
    with "1.prems" have "sN = s" by simp
    moreover from False have "fastForward tbl N loopID u = Inr u"
      by (subst fastForward.simps) simp
    ultimately show ?thesis using "1.prems"(3) by simp
  qed
qed

lemma observed_erase:
  assumes "map_sum id withoutFormatting r = map_sum id withoutFormatting r'"
  shows "map_sum id observed r = map_sum id observed r'"
proof -
  have o: "\<And>a b. withoutFormatting a = withoutFormatting b \<Longrightarrow> observed a = observed b"
  proof -
    fix a b assume "withoutFormatting a = withoutFormatting b"
    then have "observed (withoutFormatting a) = observed (withoutFormatting b)" by simp
    then show "observed a = observed b" by (simp add: observed_def withoutFormatting_def)
  qed
  from assms show ?thesis by (cases r; cases r') (auto dest: o)
qed

lemma fast_forward_agrees_with_reference:
  assumes N: "1 < N" and reach: "reachesIteration tbl src tgt N"
  shows "map_sum id withoutFormatting (synchronizeDocuments tbl src tgt N) =
         map_sum id withoutFormatting (referenceRun alsoTabs tbl src tgt N)"
proof -
  from reach obtain s0 sN where s0: "startState tbl src tgt = Inr s0"
    and sN: "stateAtIteration tbl N 1 s0 = Some sN"
    by (auto simp: reachesIteration_def split: sum.splits)
  from N have le: "1 \<le> N" by simp
  from fastForward_to_iteration [OF le sN refl] obtain uN where
    uN: "fastForward tbl N 1 s0 = Inr uN" "withoutFormatting sN = withoutFormatting uN" by blast
  from s0 N uN(1) have "synchronizeDocuments tbl src tgt N = mainLoop tbl N uN"
    by (simp add: synchronizeDocuments_def)
  then have "map_sum id withoutFormatting (synchronizeDocuments tbl src tgt N) =
             map_sum id withoutFormatting (mainLoop tbl N sN)"
    using mainLoop_erase [OF uN(2), of tbl N N] by simp
  also have "\<dots> = map_sum id withoutFormatting (mainLoop tbl 1 s0)"
    using mainLoop_from_iteration [OF le sN] by simp
  also have "\<dots> = map_sum id withoutFormatting (referenceLoop alsoTabs tbl N 1 s0)"
    using referenceLoop_erase [OF refl, of alsoTabs tbl N 1 s0] by simp
  also have "\<dots> = map_sum id withoutFormatting (referenceRun alsoTabs tbl src tgt N)"
    using s0 by (simp add: referenceRun_def)
  finally show ?thesis .
qed

text \<open>
  C4. For every pair of documents and every \<open>N > 1\<close> such that a run reaches iteration
  \<open>N\<close>, the run that fast-forwards to \<open>N\<close> and the run from iteration 1 that applies no
  formatting before \<open>N\<close> end alike: with the same error, or in final states with the same
  \<open>lastProcessedWasChinese\<close>, source line number and target line number; the two final
  states differ at most in the tab table and the list of formatting calls.
\<close>

theorem C4_fast_forward_matches_reference_run:
  "1 < N \<and> reachesIteration tbl src tgt N \<longrightarrow>
     map_sum id observed (synchronizeDocuments tbl src tgt N) =
       map_sum id observed (referenceRun alsoTabs tbl src tgt N) \<and>
     map_sum id withoutFormatting (synchronizeDocuments tbl src tgt N) =
       map_sum id withoutFormatting (referenceRun alsoTabs tbl src tgt N)"
  using fast_forward_agrees_with_reference [of N tbl src tgt alsoTabs] observed_erase by blast

theorem C4_fast_forward_matches_reference_run_witness:
  "reachesIteration caseRangesLatin1 (cursorAtStart [titleLine, amenLine])
      (cursorAtStart [titleLine, chineseLine, amenLine, chineseLine]) 3 \<and>
   map_sum id observed (synchronizeDocuments caseRangesLatin1 (cursorAtStart [titleLine, amenLine])
      (cursorAtStart [titleLine, chineseLine, amenLine, chineseLine]) 3) =
   map_sum id observed (referenceRun True caseRangesLatin1 (cursorAtStart [titleLine, amenLine])
      (cursorAtStart [titleLine, chineseLine, amenLine, chineseLine]) 3) \<and>
   map_sum id observed (synchronizeDocuments caseRangesLatin1 (cursorAtStart [titleLine, amenLine])
      (cursorAtStart [titleLine, chineseLine, amenLine, chineseLine]) 3) =
   Inr \<lparr> finalFlag = True, finalSourceLine = 2, finalTargetLine = 4 \<rparr>"
proof -
  have r: "reachesIteration caseRangesLatin1 (cursorAtStart [titleLine, amenLine])
      (cursorAtStart [titleLine, chineseLine, amenLine, chineseLine]) 3"
    by (simp add: reachesIteration_def stateAtIteration.simps run_eval)
  have v: "map_sum id observed (synchronizeDocuments caseRangesLatin1 (cursorAtStart [titleLine, amenLine])
      (cursorAtStart [titleLine, chineseLine, amenLine, chineseLine]) 3) =
      Inr \<lparr> finalFlag = True, finalSourceLine = 2, finalTargetLine = 4 \<rparr>"
    by (simp add: synchronizeDocuments_def mainLoop.simps fastForward.simps observed_def run_eval)
  from C4_fast_forward_matches_reference_run [of 3 caseRangesLatin1 "cursorAtStart [titleLine, amenLine]"
      "cursorAtStart [titleLine, chineseLine, amenLine, chineseLine]" True] r
  have "map_sum id observed (synchronizeDocuments caseRangesLatin1 (cursorAtStart [titleLine, amenLine])
      (cursorAtStart [titleLine, chineseLine, amenLine, chineseLine]) 3) =
   map_sum id observed (referenceRun True caseRangesLatin1 (cursorAtStart [titleLine, amenLine])
      (cursorAtStart [titleLine, chineseLine, amenLine, chineseLine]) 3)"
    by simp
  with r v show ?thesis by blast
qed

end
